theory Spec2Isabelle
  imports Main
begin

section \<open>Python values used by \<open>dietary_restrictions.py\<close>\<close>

text \<open>
  A Python \<open>str\<close> is modelled as a \<open>string\<close> whose chars are the code points below 256.
  \<open>isspace\<close> is the set of characters \<open>str.strip()\<close> removes in that range, and
  \<open>lower_char\<close> is \<open>str.lower()\<close> on one character of that range.
\<close>

definition isspace :: "char \<Rightarrow> bool" where
  "isspace c = (of_char c \<in> {9, 10, 11, 12, 13, 28, 29, 30, 31, 32, 133, 160 :: nat})"

definition lower_char :: "char \<Rightarrow> char" where
  "lower_char c =
     (let n = (of_char c :: nat)
      in if (65 \<le> n \<and> n \<le> 90) \<or> (192 \<le> n \<and> n \<le> 222 \<and> n \<noteq> 215)
         then char_of (n + 32) else c)"

definition strip :: "string \<Rightarrow> string" where
  "strip s = rev (dropWhile isspace (rev (dropWhile isspace s)))"

definition lower :: "string \<Rightarrow> string" where
  "lower s = map lower_char s"

definition startswith :: "string \<Rightarrow> string \<Rightarrow> bool" where
  "startswith s p = (take (length p) s = p)"

definition endswith :: "string \<Rightarrow> string \<Rightarrow> bool" where
  "endswith s p = (length p \<le> length s \<and> drop (length s - length p) s = p)"

text \<open>
  What \<open>json.loads\<close> returns. A \<open>JObj\<close> lists the items of the dict in insertion order
  (keys distinct). Numbers are carried as integers: a number with a fraction or an
  exponent takes the same branches as an integer everywhere in this program (it is no
  string, it is not iterable, it is hashable).
\<close>

datatype json =
    JNull
  | JBool bool
  | JInt int
  | JStr string
  | JArr "json list"
  | JObj "(string \<times> json) list"

text \<open>
  The exceptions of a run. \<open>ProviderError\<close> stands for whatever is raised while a client
  is constructed, a request is sent or \<open>choices[0].message.content\<close> is read.
\<close>

datatype exn = AttributeError | TypeError | JSONDecodeError | ProviderError

text \<open>\<open>d.get(key, default)\<close> on a dict.\<close>

definition dict_get :: "(string \<times> json) list \<Rightarrow> string \<Rightarrow> json \<Rightarrow> json" where
  "dict_get kvs key dflt = (case map_of kvs key of None \<Rightarrow> dflt | Some v \<Rightarrow> v)"

text \<open>
  \<open>v.get(key, default)\<close> on the value \<open>json.loads\<close> returned: only a dict has the
  method, any other value raises \<open>AttributeError\<close>.
\<close>

definition py_get :: "json \<Rightarrow> string \<Rightarrow> json \<Rightarrow> exn + json" where
  "py_get v key dflt =
     (case v of JObj kvs \<Rightarrow> Inr (dict_get kvs key dflt) | _ \<Rightarrow> Inl AttributeError)"

text \<open>
  Iterating a value (\<open>for x in v\<close>, \<open>list.extend(v)\<close>): the elements of a list, the
  one-character strings of a string, the keys of a dict; \<open>None\<close> stands for the
  \<open>TypeError\<close> of a value that is not iterable.
\<close>

fun py_iter :: "json \<Rightarrow> json list option" where
  "py_iter (JArr xs) = Some xs"
| "py_iter (JStr s) = Some (map (\<lambda>c. JStr [c]) s)"
| "py_iter (JObj kvs) = Some (map (\<lambda>kv. JStr (fst kv)) kvs)"
| "py_iter _ = None"

fun the_str :: "json \<Rightarrow> string option" where
  "the_str (JStr s) = Some s"
| "the_str _ = None"

fun intercalate :: "string \<Rightarrow> string list \<Rightarrow> string" where
  "intercalate sep [] = []"
| "intercalate sep [x] = x"
| "intercalate sep (x # y # ys) = x @ sep @ intercalate sep (y # ys)"

text \<open>
  \<open>', '.join(v)\<close>: \<open>v\<close> has to be iterable and every element a string, otherwise
  \<open>TypeError\<close> (\<open>None\<close> here).
\<close>

definition py_join :: "json \<Rightarrow> string option" where
  "py_join v =
     (case py_iter v of
        None \<Rightarrow> None
      | Some xs \<Rightarrow>
          if list_all (\<lambda>x. the_str x \<noteq> None) xs
          then Some (intercalate '', '' (map (\<lambda>x. the (the_str x)) xs))
          else None)"

section \<open>Input data and the outside world\<close>

text \<open>
  A cell of a \<open>csv.DictReader\<close> row is a string, or Python's \<open>None\<close> when the line is
  shorter than the header. A row maps the header's column names to cells. A folder lists
  the directory entries in \<open>os.listdir\<close> order, each with the rows the reader yields.
\<close>

type_synonym cell = "string option"
type_synonym row = "string \<Rightarrow> cell option"
type_synonym folder = "(string \<times> row list) list"

text \<open>
  A request to a provider: the category-derivation prompt with the unique values it
  lists, or a classification chat for a provider (\<open>True\<close> is OpenAI with
  \<open>gpt-4o-mini\<close>, \<open>False\<close> is Groq with \<open>llama-3.1-70b-versatile\<close>), the joined
  categories of the system prompt and the user message's content.

  The trace of a run records every entry into \<open>classify_dietary_restrictions\<close>
  (\<open>Call\<close>) and every \<open>chat.completions.create\<close> (\<open>Request\<close>).
\<close>

datatype request = Derive "string set" | Chat bool string json

datatype event = Call bool json | Request request

text \<open>
  The outside world. \<open>client_fails p\<close>: constructing the client of provider \<open>p\<close>
  raises. \<open>create h r\<close>: what \<open>completion.choices[0].message.content\<close> is for request
  \<open>r\<close> issued after the trace \<open>h\<close>, or the exception raised on the way; the answer may
  depend on everything that happened before. \<open>json_loads\<close>: \<open>json.loads\<close> on a string,
  \<open>None\<close> for \<open>JSONDecodeError\<close>. \<open>path_exists\<close>: \<open>os.path.exists\<close>.
\<close>

record env =
  client_fails :: "bool \<Rightarrow> bool"
  create :: "event list \<Rightarrow> request \<Rightarrow> exn + cell"
  json_loads :: "string \<Rightarrow> json option"
  path_exists :: "string \<Rightarrow> bool"

text \<open>\<open>json.loads(content)\<close>: \<open>TypeError\<close> when the content is \<open>None\<close>.\<close>

definition loads_content :: "env \<Rightarrow> cell \<Rightarrow> exn + json" where
  "loads_content e content =
     (case content of
        None \<Rightarrow> Inl TypeError
      | Some s \<Rightarrow> (case json_loads e s of None \<Rightarrow> Inl JSONDecodeError | Some v \<Rightarrow> Inr v))"

text \<open>\<open>row.get(key, '')\<close> and \<open>.strip()\<close> on its result.\<close>

definition row_get :: "row \<Rightarrow> string \<Rightarrow> cell" where
  "row_get r key = (case r key of None \<Rightarrow> Some [] | Some c \<Rightarrow> c)"

definition strip_cell :: "cell \<Rightarrow> exn + string" where
  "strip_cell c = (case c of None \<Rightarrow> Inl AttributeError | Some s \<Rightarrow> Inr (strip s))"

definition csv_files :: "folder \<Rightarrow> folder" where
  "csv_files fo = filter (\<lambda>f. endswith (fst f) ''.csv'') fo"

section \<open>\<open>get_unique_categories\<close>\<close>

text \<open>Lines 19 to 22: one row of the scan.\<close>

definition unique_row :: "string \<Rightarrow> row \<Rightarrow> string set \<Rightarrow> exn + string set" where
  "unique_row column_name r unique_values =
     (case strip_cell (row_get r ''approval_status'') of
        Inl e \<Rightarrow> Inl e
      | Inr status \<Rightarrow>
          if lower status = ''approved''
          then (case strip_cell (row_get r column_name) of
                  Inl e \<Rightarrow> Inl e
                | Inr v \<Rightarrow> if v \<noteq> [] then Inr (insert v unique_values) else Inr unique_values)
          else Inr unique_values)"

fun unique_rows :: "string \<Rightarrow> row list \<Rightarrow> string set \<Rightarrow> exn + string set" where
  "unique_rows column_name [] unique_values = Inr unique_values"
| "unique_rows column_name (r # rs) unique_values =
     (case unique_row column_name r unique_values of
        Inl e \<Rightarrow> Inl e
      | Inr u \<Rightarrow> unique_rows column_name rs u)"

fun unique_files :: "string \<Rightarrow> folder \<Rightarrow> string set \<Rightarrow> exn + string set" where
  "unique_files column_name [] unique_values = Inr unique_values"
| "unique_files column_name (f # fs) unique_values =
     (case unique_rows column_name (snd f) unique_values of
        Inl e \<Rightarrow> Inl e
      | Inr u \<Rightarrow> unique_files column_name fs u)"

definition get_unique_categories ::
  "env \<Rightarrow> event list \<Rightarrow> folder \<Rightarrow> string \<Rightarrow> event list \<times> (exn + json)" where
  "get_unique_categories e tr data_folder column_name =
     (case unique_files column_name (csv_files data_folder) {} of
        Inl x \<Rightarrow> (tr, Inl x)
      | Inr unique_values \<Rightarrow>
          if client_fails e False then (tr, Inl ProviderError)
          else
            (let rq = Derive unique_values; tr1 = tr @ [Request rq]
             in case create e tr rq of
                  Inl x \<Rightarrow> (tr1, Inl x)
                | Inr content \<Rightarrow>
                    (case loads_content e content of
                       Inl x \<Rightarrow> (tr1, Inl x)
                     | Inr categories \<Rightarrow> (tr1, py_get categories ''categories'' (JArr [])))))"

section \<open>\<open>classify_dietary_restrictions\<close>\<close>

definition classify_dietary_restrictions ::
  "env \<Rightarrow> event list \<Rightarrow> json \<Rightarrow> json \<Rightarrow> bool \<Rightarrow> event list \<times> (exn + json)" where
  "classify_dietary_restrictions e tr text categories use_openai =
     (let tr0 = tr @ [Call use_openai text]
      in if client_fails e use_openai then (tr0, Inl ProviderError)
         else
           (case py_join categories of
              None \<Rightarrow> (tr0, Inl TypeError)
            | Some joined \<Rightarrow>
                (let rq = Chat use_openai joined text; tr1 = tr0 @ [Request rq]
                 in case create e tr0 rq of
                      Inl x \<Rightarrow> (tr1, Inl x)
                    | Inr content \<Rightarrow>
                        (case loads_content e content of
                           Inl x \<Rightarrow> (tr1, Inl x)
                         | Inr v \<Rightarrow> (tr1, py_get v ''dietary_restrictions'' (JArr []))))))"

section \<open>\<open>get_unique_filename\<close>\<close>

text \<open>\<open>f"{counter}"\<close>: the decimal digits of a natural number, no leading zero.\<close>

fun str_nat :: "nat \<Rightarrow> string" where
  "str_nat n =
     (if n < 10 then [char_of (48 + n)]
      else str_nat (n div 10) @ [char_of (48 + n mod 10)])"

definition numbered :: "string \<Rightarrow> nat \<Rightarrow> string \<Rightarrow> string" where
  "numbered base_name counter extension =
     base_name @ ''('' @ str_nat counter @ '')'' @ extension"

text \<open>
  The \<open>while True\<close> loop of lines 99 to 103, from a given value of \<open>counter\<close>. It has no
  bound, so the result is an option: \<open>None\<close> is the loop that never returns.
\<close>

partial_function (option) unique_from ::
  "(string \<Rightarrow> bool) \<Rightarrow> string \<Rightarrow> string \<Rightarrow> nat \<Rightarrow> string option" where
  "unique_from ex base_name extension counter =
     (if \<not> ex (numbered base_name counter extension)
      then Some (numbered base_name counter extension)
      else unique_from ex base_name extension (counter + 1))"

declare unique_from.simps [code]

definition get_unique_filename :: "env \<Rightarrow> string \<Rightarrow> string \<Rightarrow> string option" where
  "get_unique_filename e base_name extension =
     unique_from (path_exists e) base_name extension 1"

section \<open>\<open>process_csv_files\<close>\<close>

text \<open>
  Lines 130 to 134: the loop over the parsed sub-texts; \<open>classification\<close> is the list
  built so far, extended by what each call returns.
\<close>

fun classify_items ::
  "env \<Rightarrow> json \<Rightarrow> event list \<Rightarrow> json list \<Rightarrow> json list \<Rightarrow> event list \<times> (exn + json list)" where
  "classify_items e categories tr [] classification = (tr, Inr classification)"
| "classify_items e categories tr (item # items) classification =
     (case classify_dietary_restrictions e tr item categories False of
        (tr1, Inl x) \<Rightarrow> (tr1, Inl x)
      | (tr1, Inr c) \<Rightarrow>
          (case py_iter c of
             None \<Rightarrow> (tr1, Inl TypeError)
           | Some cs \<Rightarrow> classify_items e categories tr1 items (classification @ cs)))"

text \<open>Lines 127 to 139: the body of the outer \<open>try\<close>.\<close>

definition classify_guarded ::
  "env \<Rightarrow> json \<Rightarrow> event list \<Rightarrow> string \<Rightarrow> event list \<times> (exn + json)" where
  "classify_guarded e categories tr text =
     (if startswith text ''['' \<and> endswith text '']''
      then (case json_loads e text of
              None \<Rightarrow> (tr, Inl JSONDecodeError)
            | Some text_list \<Rightarrow>
                (case py_iter text_list of
                   None \<Rightarrow> (tr, Inl TypeError)
                 | Some items \<Rightarrow>
                     (case classify_items e categories tr items [] of
                        (tr1, Inl x) \<Rightarrow> (tr1, Inl x)
                      | (tr1, Inr classification) \<Rightarrow> (tr1, Inr (JArr classification)))))
      else classify_dietary_restrictions e tr (JStr text) categories False)"

text \<open>Lines 125 to 149: the \<open>try\<close> with its two handlers. It never raises.\<close>

definition classify_text ::
  "env \<Rightarrow> json \<Rightarrow> event list \<Rightarrow> string \<Rightarrow> event list \<times> json" where
  "classify_text e categories tr text =
     (case classify_guarded e categories tr text of
        (tr1, Inr classification) \<Rightarrow> (tr1, classification)
      | (tr1, Inl x) \<Rightarrow>
          (case classify_dietary_restrictions e tr1 (JStr text) categories True of
             (tr2, Inr classification) \<Rightarrow> (tr2, classification)
           | (tr2, Inl y) \<Rightarrow> (tr2, JArr [JStr ''Error''])))"

text \<open>
  Lines 122 to 151: the value of \<open>classification\<close> for one row; \<open>Inr None\<close> for a row
  that is not approved, which assigns nothing.
\<close>

definition row_classification ::
  "env \<Rightarrow> json \<Rightarrow> string \<Rightarrow> event list \<Rightarrow> row \<Rightarrow> event list \<times> (exn + json option)" where
  "row_classification e categories column_name tr r =
     (case strip_cell (row_get r ''approval_status'') of
        Inl x \<Rightarrow> (tr, Inl x)
      | Inr status \<Rightarrow>
          if lower status = ''approved''
          then (case strip_cell (row_get r column_name) of
                  Inl x \<Rightarrow> (tr, Inl x)
                | Inr text \<Rightarrow>
                    if text \<noteq> []
                    then (case classify_text e categories tr text of
                            (tr1, classification) \<Rightarrow> (tr1, Inr (Some classification)))
                    else (tr, Inr (Some (JArr [JStr ''No restrictions'']))))
          else (tr, Inr None))"

text \<open>
  \<open>classifications\<close> is a \<open>defaultdict(list)\<close>: the file names in the order of their
  first append, each with the category entries appended so far.
\<close>

type_synonym table = "(string \<times> json list) list"

fun dd_append :: "table \<Rightarrow> string \<Rightarrow> json \<Rightarrow> table" where
  "dd_append [] filename cat = [(filename, [cat])]"
| "dd_append ((g, cats) # t) filename cat =
     (if g = filename then (g, cats @ [cat]) # t else (g, cats) # dd_append t filename cat)"

text \<open>Lines 152 and 153.\<close>

definition append_cats :: "table \<Rightarrow> string \<Rightarrow> json list \<Rightarrow> table" where
  "append_cats t filename classification = foldl (\<lambda>t' cat. dd_append t' filename cat) t classification"

record state =
  trace :: "event list"
  classifications :: table

text \<open>
  Lines 122 to 153, the body of the row loop after the test-run check. The second
  component is the exception that leaves the loop, if any: the \<open>for\<close> of line 152 raises
  \<open>TypeError\<close> on a classification that is not iterable.
\<close>

definition process_row ::
  "env \<Rightarrow> json \<Rightarrow> string \<Rightarrow> string \<Rightarrow> row \<Rightarrow> state \<Rightarrow> state \<times> exn option" where
  "process_row e categories column_name filename r st =
     (case row_classification e categories column_name (trace st) r of
        (tr1, Inl x) \<Rightarrow> (st\<lparr>trace := tr1\<rparr>, Some x)
      | (tr1, Inr None) \<Rightarrow> (st\<lparr>trace := tr1\<rparr>, None)
      | (tr1, Inr (Some classification)) \<Rightarrow>
          (case py_iter classification of
             None \<Rightarrow> (st\<lparr>trace := tr1\<rparr>, Some TypeError)
           | Some cats \<Rightarrow>
               (\<lparr>trace = tr1,
                 classifications = append_cats (classifications st) filename cats\<rparr>, None)))"

text \<open>Lines 119 to 153: the rows of one file from index \<open>i\<close> on.\<close>

fun process_rows ::
  "env \<Rightarrow> json \<Rightarrow> string \<Rightarrow> string \<Rightarrow> bool \<Rightarrow> nat \<Rightarrow> row list \<Rightarrow> state \<Rightarrow> state \<times> exn option" where
  "process_rows e categories column_name filename test_run i [] st = (st, None)"
| "process_rows e categories column_name filename test_run i (r # rs) st =
     (if test_run \<and> i \<ge> 10 then (st, None)
      else (case process_row e categories column_name filename r st of
              (st1, Some x) \<Rightarrow> (st1, Some x)
            | (st1, None) \<Rightarrow>
                process_rows e categories column_name filename test_run (i + 1) rs st1))"

text \<open>Lines 116 to 153: the loop over the files.\<close>

fun process_files ::
  "env \<Rightarrow> json \<Rightarrow> string \<Rightarrow> bool \<Rightarrow> folder \<Rightarrow> state \<Rightarrow> state \<times> exn option" where
  "process_files e categories column_name test_run [] st = (st, None)"
| "process_files e categories column_name test_run (f # fs) st =
     (case process_rows e categories column_name (fst f) test_run 0 (snd f) st of
        (st1, Some x) \<Rightarrow> (st1, Some x)
      | (st1, None) \<Rightarrow> process_files e categories column_name test_run fs st1)"

text \<open>
  \<open>collections.Counter\<close> on a list: the distinct keys in first-seen order with their
  counts. A list or a dict is unhashable (\<open>TypeError\<close>); \<open>True\<close> and \<open>1\<close>, \<open>False\<close> and
  \<open>0\<close> are equal keys, every other pair of different values is different.
\<close>

fun hashable :: "json \<Rightarrow> bool" where
  "hashable (JArr xs) = False"
| "hashable (JObj kvs) = False"
| "hashable v = True"

fun py_key :: "json \<Rightarrow> json" where
  "py_key (JBool b) = JInt (if b then 1 else 0)"
| "py_key v = v"

definition py_eq :: "json \<Rightarrow> json \<Rightarrow> bool" where
  "py_eq a b = (py_key a = py_key b)"

fun counter_add :: "(json \<times> nat) list \<Rightarrow> json \<Rightarrow> (json \<times> nat) list" where
  "counter_add [] x = [(x, 1)]"
| "counter_add ((k, n) # kns) x =
     (if py_eq k x then (k, n + 1) # kns else (k, n) # counter_add kns x)"

definition Counter :: "json list \<Rightarrow> exn + (json \<times> nat) list" where
  "Counter cats =
     (if list_all hashable cats then Inr (foldl counter_add [] cats) else Inl TypeError)"

text \<open>Lines 157 and 158.\<close>

fun classification_counts :: "table \<Rightarrow> exn + (string \<times> (json \<times> nat) list) list" where
  "classification_counts [] = Inr []"
| "classification_counts ((filename, cats) # t) =
     (case Counter cats of
        Inl x \<Rightarrow> Inl x
      | Inr counts \<Rightarrow>
          (case classification_counts t of
             Inl x \<Rightarrow> Inl x
           | Inr cc \<Rightarrow> Inr ((filename, counts) # cc)))"

text \<open>Lines 168 to 170: the data rows written after the header.\<close>

definition written_rows ::
  "(string \<times> (json \<times> nat) list) list \<Rightarrow> (string \<times> json \<times> nat) list" where
  "written_rows cc = concat (map (\<lambda>fc. map (\<lambda>kn. (fst fc, fst kn, snd kn)) (snd fc)) cc)"

text \<open>
  The whole run. \<open>None\<close>: the run never returns (the file-name loop). Otherwise the
  trace, and either the exception that ended the run or the path written with its rows.
\<close>

definition process_csv_files ::
  "env \<Rightarrow> folder \<Rightarrow> string \<Rightarrow> string \<Rightarrow> bool
     \<Rightarrow> (event list \<times> (exn + string \<times> (string \<times> json \<times> nat) list)) option" where
  "process_csv_files e data_folder column_name output_file_base test_run =
     (case get_unique_categories e [] data_folder column_name of
        (tr0, Inl x) \<Rightarrow> Some (tr0, Inl x)
      | (tr0, Inr categories) \<Rightarrow>
          (case process_files e categories column_name test_run (csv_files data_folder)
                  \<lparr>trace = tr0, classifications = []\<rparr> of
             (st, Some x) \<Rightarrow> Some (trace st, Inl x)
           | (st, None) \<Rightarrow>
               (case classification_counts (classifications st) of
                  Inl x \<Rightarrow> Some (trace st, Inl x)
                | Inr cc \<Rightarrow>
                    (case get_unique_filename e output_file_base ''.csv'' of
                       None \<Rightarrow> None
                     | Some output_file \<Rightarrow> Some (trace st, Inr (output_file, written_rows cc))))))"

section \<open>Notions of the specification\<close>

text \<open>An approved row: its \<open>approval_status\<close> is a string that trims and lowers to \<open>approved\<close>.\<close>

definition approved :: "row \<Rightarrow> bool" where
  "approved r =
     (case row_get r ''approval_status'' of
        None \<Rightarrow> False
      | Some s \<Rightarrow> lower (strip s) = ''approved'')"

text \<open>The entries recorded for a file in the count table, none when the file has no key.\<close>

definition cats_of :: "table \<Rightarrow> string \<Rightarrow> json list" where
  "cats_of t filename = (case map_of t filename of None \<Rightarrow> [] | Some cats \<Rightarrow> cats)"

text \<open>Events of the trace: the classification calls, and what goes to the fallback provider.\<close>

fun is_call :: "event \<Rightarrow> bool" where
  "is_call (Call p t) = True"
| "is_call (Request rq) = False"

fun to_openai :: "event \<Rightarrow> bool" where
  "to_openai (Call p t) = p"
| "to_openai (Request (Chat p j t)) = p"
| "to_openai (Request (Derive u)) = False"

text \<open>
  What each classification call returns when the sub-texts are classified one after the
  other with the primary provider, each call issued after the trace the earlier ones left.
\<close>

fun sub_calls :: "env \<Rightarrow> json \<Rightarrow> event list \<Rightarrow> json list \<Rightarrow> (exn + json) list" where
  "sub_calls e categories tr [] = []"
| "sub_calls e categories tr (item # items) =
     (case classify_dietary_restrictions e tr item categories False of
        (tr1, res) \<Rightarrow> res # sub_calls e categories tr1 items)"

text \<open>
  The per-row classification lists of one file, in row order, as the row loop meets them:
  a row that is not approved has none, and the lists end where the loop ends.
\<close>

fun rows_lists ::
  "env \<Rightarrow> json \<Rightarrow> string \<Rightarrow> bool \<Rightarrow> nat \<Rightarrow> row list \<Rightarrow> event list \<Rightarrow> json list list" where
  "rows_lists e categories column_name test_run i [] tr = []"
| "rows_lists e categories column_name test_run i (r # rs) tr =
     (if test_run \<and> i \<ge> 10 then []
      else (case row_classification e categories column_name tr r of
              (tr1, Inl x) \<Rightarrow> []
            | (tr1, Inr None) \<Rightarrow> rows_lists e categories column_name test_run (i + 1) rs tr1
            | (tr1, Inr (Some classification)) \<Rightarrow>
                (case py_iter classification of
                   None \<Rightarrow> []
                 | Some cats \<Rightarrow>
                     cats # rows_lists e categories column_name test_run (i + 1) rs tr1)))"

text \<open>
  The stream of (source file, classification list) pairs of a run over the files, each
  file starting from the trace the files before it left; it ends with the file in which
  an exception ends the run.
\<close>

fun files_lists ::
  "env \<Rightarrow> json \<Rightarrow> string \<Rightarrow> bool \<Rightarrow> folder \<Rightarrow> event list \<Rightarrow> (string \<times> json list) list" where
  "files_lists e categories column_name test_run [] tr = []"
| "files_lists e categories column_name test_run (f # fs) tr =
     map (Pair (fst f)) (rows_lists e categories column_name test_run 0 (snd f) tr)
     @ (case process_rows e categories column_name (fst f) test_run 0 (snd f)
               \<lparr>trace = tr, classifications = []\<rparr> of
          (st1, Some x) \<Rightarrow> []
        | (st1, None) \<Rightarrow> files_lists e categories column_name test_run fs (trace st1))"

section \<open>A sample world\<close>

text \<open>
  \<open>json.loads\<close> on the strings the examples below feed it: the JSON documents listed,
  and \<open>JSONDecodeError\<close> on the one other (\<open>Service unavailable\<close>), which is not JSON.
\<close>

definition sample_loads :: "string \<Rightarrow> json option" where
  \<open>sample_loads s =
     (if s = ''{}'' then Some (JObj [])
      else if s = ''{"categories": ["Vegan", "Gluten-Free", "No restrictions"]}''
        then Some (JObj [(''categories'',
                          JArr [JStr ''Vegan'', JStr ''Gluten-Free'', JStr ''No restrictions''])])
      else if s = ''{"categories": ["Nut allergy", "No restrictions"]}''
        then Some (JObj [(''categories'', JArr [JStr ''Nut allergy'', JStr ''No restrictions''])])
      else if s = ''{"dietary_restrictions": ["Vegan"]}''
        then Some (JObj [(''dietary_restrictions'', JArr [JStr ''Vegan''])])
      else if s = ''{"dietary_restrictions": ["Gluten-Free"]}''
        then Some (JObj [(''dietary_restrictions'', JArr [JStr ''Gluten-Free''])])
      else if s = ''{"dietary_restrictions": ["Vegan", "Gluten-Free"]}''
        then Some (JObj [(''dietary_restrictions'', JArr [JStr ''Vegan'', JStr ''Gluten-Free''])])
      else if s = ''{"dietary_restrictions": ["Nut allergy"]}''
        then Some (JObj [(''dietary_restrictions'', JArr [JStr ''Nut allergy''])])
      else if s = ''{"dietary_restrictions": ["No restrictions"]}''
        then Some (JObj [(''dietary_restrictions'', JArr [JStr ''No restrictions''])])
      else if s = ''["vegan", "celiac"]''
        then Some (JArr [JStr ''vegan'', JStr ''celiac''])
      else if s = ''["vegan", "shellfish"]''
        then Some (JArr [JStr ''vegan'', JStr ''shellfish''])
      else if s = ''{"dietary_restrictions": null}''
        then Some (JObj [(''dietary_restrictions'', JNull)])
      else if s = ''["tbd"]''
        then Some (JArr [JStr ''tbd''])
      else None)\<close>

text \<open>
  A provider pair. Category derivation answers with text that is no JSON when \<open>???\<close>
  is among the unique values, with an empty object when \<open>n/a\<close> is, with a nut
  category when \<open>nuts\<close> is, and with the three usual categories otherwise. The primary
  provider knows \<open>vegan\<close>, \<open>celiac\<close> and \<open>vegan, celiac\<close>, answers an object without
  the key for \<open>nothing special\<close> and one whose key holds \<open>null\<close> for \<open>tbd\<close>, classifies
  \<open>no peanuts please\<close> by the categories it is given, and fails on every other text.
  The fallback provider knows \<open>vegan\<close> and the array texts \<open>vegan_shellfish\<close> and
  \<open>tbd_array\<close>, and fails on the rest.
\<close>

definition sample_create :: "event list \<Rightarrow> request \<Rightarrow> exn + cell" where
  \<open>sample_create h rq =
     (case rq of
        Derive u \<Rightarrow>
          if ''???'' \<in> u then Inr (Some ''Service unavailable'')
          else if ''n/a'' \<in> u then Inr (Some ''{}'')
          else if ''nuts'' \<in> u then Inr (Some ''{"categories": ["Nut allergy", "No restrictions"]}'')
          else Inr (Some ''{"categories": ["Vegan", "Gluten-Free", "No restrictions"]}'')
      | Chat p joined t \<Rightarrow>
          if t = JStr ''vegan'' then Inr (Some ''{"dietary_restrictions": ["Vegan"]}'')
          else if p then
            (if t = JStr ''["vegan", "shellfish"]'' \<or> t = JStr ''["tbd"]''
             then Inr (Some ''{"dietary_restrictions": ["Vegan"]}'')
             else Inl ProviderError)
          else if t = JStr ''celiac'' then Inr (Some ''{"dietary_restrictions": ["Gluten-Free"]}'')
          else if t = JStr ''vegan, celiac''
            then Inr (Some ''{"dietary_restrictions": ["Vegan", "Gluten-Free"]}'')
          else if t = JStr ''nothing special'' then Inr (Some ''{}'')
          else if t = JStr ''tbd'' then Inr (Some ''{"dietary_restrictions": null}'')
          else if t = JStr ''no peanuts please''
            then (if joined = ''Nut allergy, No restrictions''
                  then Inr (Some ''{"dietary_restrictions": ["Nut allergy"]}'')
                  else Inr (Some ''{"dietary_restrictions": ["No restrictions"]}''))
          else Inl ProviderError)\<close>

text \<open>
  On disk: \<open>classification_results.csv\<close> and \<open>classification_results(1).csv\<close>.
\<close>

definition sample_env :: env where
  "sample_env =
     \<lparr>client_fails = (\<lambda>p. False),
      create = sample_create,
      json_loads = sample_loads,
      path_exists = (\<lambda>p. p = ''classification_results.csv''
                          \<or> p = ''classification_results(1).csv'')\<rparr>"

text \<open>A row with the two columns \<open>approval_status\<close> and \<open>diet\<close>, and a short row.\<close>

definition sample_row :: "string \<Rightarrow> string \<Rightarrow> row" where
  "sample_row status answer =
     map_of [(''approval_status'', Some status), (''diet'', Some answer)]"

definition short_row :: "string \<Rightarrow> row" where
  "short_row status = map_of [(''approval_status'', Some status), (''diet'', None)]"

text \<open>Three answers that are JSON arrays of sub-texts.\<close>

definition vegan_celiac :: string where
  \<open>vegan_celiac = ''["vegan", "celiac"]''\<close>

definition vegan_shellfish :: string where
  \<open>vegan_shellfish = ''["vegan", "shellfish"]''\<close>

definition tbd_array :: string where
  \<open>tbd_array = ''["tbd"]''\<close>

text \<open>
  Eleven rows: an approved answer, nine rows that are not approved, and an approved
  answer at index 10.
\<close>

definition eleven_rows :: "row list" where
  "eleven_rows =
     sample_row ''approved'' ''no peanuts please''
     # replicate 9 (sample_row ''pending'' ''vegan'')
     @ [sample_row ''approved'' ''nuts'']"

text \<open>Eleven approved rows: ten times \<open>vegan\<close>, then \<open>celiac\<close> at index 10.\<close>

definition eleven_approved :: "row list" where
  "eleven_approved =
     replicate 10 (sample_row ''approved'' ''vegan'') @ [sample_row ''approved'' ''celiac'']"

text \<open>A folder with one file of three approved rows and one that is not approved.\<close>

definition sample_folder :: folder where
  "sample_folder =
     [(''a.csv'', [sample_row ''approved'' ''vegan'',
                   sample_row '' Approved'' ''vegan, celiac'',
                   sample_row ''APPROVED '' ''  '',
                   sample_row ''pending'' ''celiac'']),
      (''notes.txt'', [])]"

definition sample_categories :: json where
  "sample_categories = JArr [JStr ''Vegan'', JStr ''Gluten-Free'', JStr ''No restrictions'']"

section \<open>Properties\<close>

subsection \<open>Rows\<close>

lemma approved_status:
  "approved r \<Longrightarrow>
     \<exists>status. strip_cell (row_get r ''approval_status'') = Inr status \<and> lower status = ''approved''"
  by (auto simp: approved_def strip_cell_def split: option.splits)

lemma row_classification_approved:
  assumes "approved r" and "strip_cell (row_get r column_name) = Inr text"
  shows "row_classification e categories column_name tr r =
           (if text \<noteq> []
            then (case classify_text e categories tr text of
                    (tr1, classification) \<Rightarrow> (tr1, Inr (Some classification)))
            else (tr, Inr (Some (JArr [JStr ''No restrictions'']))))"
  using approved_status [OF assms(1)] assms(2)
  by (auto simp: row_classification_def)

lemma classify_trace:
  assumes "classify_dietary_restrictions e tr text categories p = (tr1, res)"
  shows "tr1 = tr @ [Call p text] \<or>
         (\<exists>joined. py_join categories = Some joined \<and>
            tr1 = tr @ [Call p text, Request (Chat p joined text)])"
  using assms
  by (auto simp: classify_dietary_restrictions_def Let_def split: if_splits option.splits sum.splits)

lemma short_row_raises:
  "process_row e categories ''diet'' filename (short_row ''approved'') st =
     (st, Some AttributeError)"
proof -
  have "strip_cell (row_get (short_row ''approved'') ''approval_status'') = Inr ''approved''"
    by code_simp
  moreover have "lower ''approved'' = ''approved''" by code_simp
  moreover have "strip_cell (row_get (short_row ''approved'') ''diet'') = Inl AttributeError"
    by code_simp
  ultimately show ?thesis
    by (simp add: process_row_def row_classification_def)
qed

text \<open>
  C3. An approved row whose target column is absent, or holds a string that trims to
  the empty string, is classified as exactly \<open>["No restrictions"]\<close>; the trace is
  unchanged, so no classification call and no request to a provider is made for the row,
  and that single entry is appended for the file.
\<close>

theorem empty_text_no_restrictions:
  assumes "approved r"
    and "r column_name = None \<or> (\<exists>s. r column_name = Some (Some s) \<and> strip s = [])"
  shows "row_classification e categories column_name (trace st) r =
           (trace st, Inr (Some (JArr [JStr ''No restrictions''])))
       \<and> process_row e categories column_name filename r st =
           (st\<lparr>classifications :=
                 append_cats (classifications st) filename [JStr ''No restrictions'']\<rparr>, None)"
proof -
  have "strip_cell (row_get r column_name) = Inr []"
    using assms(2) by (auto simp: row_get_def strip_cell_def strip_def)
  with assms(1) have rc: "row_classification e categories column_name (trace st) r =
      (trace st, Inr (Some (JArr [JStr ''No restrictions''])))"
    by (simp add: row_classification_approved)
  then show ?thesis
    by (simp add: process_row_def)
qed

theorem empty_text_no_restrictions_witness:
  "approved (sample_row ''Approved '' ''   '')
   \<and> strip ''   '' = []
   \<and> process_row sample_env sample_categories ''diet'' ''a.csv'' (sample_row ''Approved '' ''   '')
       \<lparr>trace = [], classifications = []\<rparr> =
      (\<lparr>trace = [], classifications = [(''a.csv'', [JStr ''No restrictions''])]\<rparr>, None)
   \<and> approved (sample_row ''approved'' ''vegan'')
   \<and> process_row sample_env sample_categories ''meal'' ''a.csv'' (sample_row ''approved'' ''vegan'')
       \<lparr>trace = [], classifications = []\<rparr> =
      (\<lparr>trace = [], classifications = [(''a.csv'', [JStr ''No restrictions''])]\<rparr>, None)"
proof -
  have a1: "approved (sample_row ''Approved '' ''   '')" by code_simp
  have s1: "strip ''   '' = []" by code_simp
  have c1: "sample_row ''Approved '' ''   '' ''diet'' = None \<or>
      (\<exists>s. sample_row ''Approved '' ''   '' ''diet'' = Some (Some s) \<and> strip s = [])"
    using s1 by (simp add: sample_row_def)
  have a2: "approved (sample_row ''approved'' ''vegan'')" by code_simp
  have c2: "sample_row ''approved'' ''vegan'' ''meal'' = None \<or>
      (\<exists>s. sample_row ''approved'' ''vegan'' ''meal'' = Some (Some s) \<and> strip s = [])"
    by (simp add: sample_row_def)
  have t: "append_cats [] ''a.csv'' [JStr ''No restrictions''] = [(''a.csv'', [JStr ''No restrictions''])]"
    by (simp add: append_cats_def)
  show ?thesis
    using a1 s1 a2 t
      empty_text_no_restrictions [OF a1 c1, of sample_env sample_categories
        "\<lparr>trace = [], classifications = []\<rparr>" "''a.csv''"]
      empty_text_no_restrictions [OF a2 c2, of sample_env sample_categories
        "\<lparr>trace = [], classifications = []\<rparr>" "''a.csv''"]
    by simp
qed

lemma classify_new_events:
  assumes "classify_dietary_restrictions e tr text categories p = (tr1, res)"
  shows "\<exists>evs. tr1 = tr @ evs \<and> filter is_call evs = [Call p text]
           \<and> list_all (\<lambda>ev. to_openai ev = p) evs"
  using classify_trace [OF assms] by auto

lemma classify_items_append:
  "classify_items e categories tr (xs @ ys) acc =
     (case classify_items e categories tr xs acc of
        (tr1, Inl x) \<Rightarrow> (tr1, Inl x)
      | (tr1, Inr acc1) \<Rightarrow> classify_items e categories tr1 ys acc1)"
  by (induction xs arbitrary: tr acc) (auto split: prod.splits sum.splits option.splits)

lemma classify_items_events:
  "classify_items e categories tr items acc = (tr1, res) \<Longrightarrow>
     \<exists>evs. tr1 = tr @ evs \<and> list_all (\<lambda>ev. \<not> to_openai ev) evs"
proof (induction items arbitrary: tr acc)
  case Nil
  then show ?case by simp
next
  case (Cons item items)
  obtain tr0 r0 where c: "classify_dietary_restrictions e tr item categories False = (tr0, r0)"
    by (cases "classify_dietary_restrictions e tr item categories False")
  from classify_new_events [OF c] obtain evs0 where
    e0: "tr0 = tr @ evs0" "list_all (\<lambda>ev. \<not> to_openai ev) evs0"
    by auto
  show ?case
  proof (cases r0)
    case (Inl x)
    with Cons.prems c e0 show ?thesis by auto
  next
    case (Inr v)
    show ?thesis
    proof (cases "py_iter v")
      case None
      with Cons.prems c e0 Inr show ?thesis by auto
    next
      case (Some cs)
      with Cons.prems c Inr
      have "classify_items e categories tr0 items (acc @ cs) = (tr1, res)" by simp
      from Cons.IH [OF this] obtain evs1 where
        "tr1 = tr0 @ evs1" "list_all (\<lambda>ev. \<not> to_openai ev) evs1" by auto
      with e0 have "tr1 = tr @ (evs0 @ evs1) \<and> list_all (\<lambda>ev. \<not> to_openai ev) (evs0 @ evs1)"
        by simp
      then show ?thesis by blast
    qed
  qed
qed

lemma classify_guarded_events:
  assumes "classify_guarded e categories tr text = (tr1, res)"
  shows "\<exists>evs. tr1 = tr @ evs \<and> list_all (\<lambda>ev. \<not> to_openai ev) evs"
proof (cases "startswith text ''['' \<and> endswith text '']''")
  case False
  with assms have "classify_dietary_restrictions e tr (JStr text) categories False = (tr1, res)"
    by (simp add: classify_guarded_def)
  from classify_new_events [OF this] show ?thesis by auto
next
  case True
  show ?thesis
  proof (cases "json_loads e text")
    case None
    with True assms show ?thesis by (simp add: classify_guarded_def)
  next
    case (Some text_list)
    show ?thesis
    proof (cases "py_iter text_list")
      case None
      with True Some assms show ?thesis by (simp add: classify_guarded_def)
    next
      case (Some items)
      obtain tr' r' where ci: "classify_items e categories tr items [] = (tr', r')"
        by (cases "classify_items e categories tr items []")
      with True \<open>json_loads e text = Some text_list\<close> Some assms have "tr1 = tr'"
        by (auto simp: classify_guarded_def split: sum.splits)
      with classify_items_events [OF ci] show ?thesis by simp
    qed
  qed
qed

lemma classify_text_fallback:
  assumes "classify_guarded e categories tr text = (tr1, Inl x)"
    and "classify_dietary_restrictions e tr1 (JStr text) categories True = (tr2, res)"
  shows "classify_text e categories tr text =
           (tr2, case res of Inl y \<Rightarrow> JArr [JStr ''Error''] | Inr c \<Rightarrow> c)"
  using assms by (simp add: classify_text_def split: sum.splits)

text \<open>
  C5. When the guarded block raises for the text of an approved row (the primary
  classification failed), the row makes exactly one classification call to the fallback
  provider, on the row's text, and the row's classification is what that call returns.
  When the fallback call raises too, the classification is exactly \<open>["Error"]\<close>, no
  exception leaves the row, and the row loop goes on with the next row.
\<close>

theorem fallback_once_then_error:
  assumes "approved r"
    and "strip_cell (row_get r column_name) = Inr text" and "text \<noteq> []"
    and "classify_guarded e categories (trace st) text = (tr1, Inl x)"
    and "classify_dietary_restrictions e tr1 (JStr text) categories True = (tr2, res)"
  shows "row_classification e categories column_name (trace st) r =
           (tr2, Inr (Some (case res of Inl y \<Rightarrow> JArr [JStr ''Error''] | Inr c \<Rightarrow> c)))
       \<and> take (length (trace st)) tr2 = trace st
       \<and> filter (\<lambda>ev. is_call ev \<and> to_openai ev) (drop (length (trace st)) tr2) =
           [Call True (JStr text)]
       \<and> ((\<exists>y. res = Inl y) \<and> \<not> (test_run \<and> 10 \<le> i) \<longrightarrow>
            process_rows e categories column_name filename test_run i (r # rs) st =
            process_rows e categories column_name filename test_run (i + 1) rs
              \<lparr>trace = tr2,
               classifications = append_cats (classifications st) filename [JStr ''Error'']\<rparr>)"
proof -
  have rc: "row_classification e categories column_name (trace st) r =
           (tr2, Inr (Some (case res of Inl y \<Rightarrow> JArr [JStr ''Error''] | Inr c \<Rightarrow> c)))"
    using assms(3) classify_text_fallback [OF assms(4,5)]
    by (simp add: row_classification_approved [OF assms(1,2)])
  from classify_guarded_events [OF assms(4)] obtain evs1 where
    e1: "tr1 = trace st @ evs1" "list_all (\<lambda>ev. \<not> to_openai ev) evs1" by auto
  from classify_new_events [OF assms(5)] obtain evs2 where
    e2: "tr2 = tr1 @ evs2" "filter is_call evs2 = [Call True (JStr text)]"
      "list_all (\<lambda>ev. to_openai ev = True) evs2" by auto
  have f1: "filter (\<lambda>ev. is_call ev \<and> to_openai ev) evs1 = []"
    using e1(2) by (induction evs1) auto
  have f2: "filter (\<lambda>ev. is_call ev \<and> to_openai ev) evs2 = filter is_call evs2"
    using e2(3) by (induction evs2) auto
  have tk: "take (length (trace st)) tr2 = trace st"
    using e1(1) e2(1) by simp
  have fl: "filter (\<lambda>ev. is_call ev \<and> to_openai ev) (drop (length (trace st)) tr2) =
           [Call True (JStr text)]"
    using e1(1) e2(1,2) f1 f2 by simp
  have pr: "(\<exists>y. res = Inl y) \<and> \<not> (test_run \<and> 10 \<le> i) \<longrightarrow>
            process_rows e categories column_name filename test_run i (r # rs) st =
            process_rows e categories column_name filename test_run (i + 1) rs
              \<lparr>trace = tr2,
               classifications = append_cats (classifications st) filename [JStr ''Error'']\<rparr>"
    using rc by (auto simp: process_row_def)
  from rc tk fl pr show ?thesis by blast
qed

theorem fallback_once_then_error_witness:
  "approved (sample_row ''approved'' ''kosher'')
   \<and> strip_cell (row_get (sample_row ''approved'' ''kosher'') ''diet'') = Inr ''kosher''
   \<and> classify_guarded sample_env sample_categories [] ''kosher'' =
       ([Call False (JStr ''kosher''),
         Request (Chat False ''Vegan, Gluten-Free, No restrictions'' (JStr ''kosher''))],
        Inl ProviderError)
   \<and> row_classification sample_env sample_categories ''diet'' []
         (sample_row ''approved'' ''kosher'') =
       ([Call False (JStr ''kosher''),
         Request (Chat False ''Vegan, Gluten-Free, No restrictions'' (JStr ''kosher'')),
         Call True (JStr ''kosher''),
         Request (Chat True ''Vegan, Gluten-Free, No restrictions'' (JStr ''kosher''))],
        Inr (Some (JArr [JStr ''Error''])))
   \<and> classifications (fst (process_rows sample_env sample_categories ''diet'' ''a.csv'' False 0
         [sample_row ''approved'' ''kosher'', sample_row ''approved'' ''vegan'']
         \<lparr>trace = [], classifications = []\<rparr>)) =
       [(''a.csv'', [JStr ''Error'', JStr ''Vegan''])]"
proof -
  let ?r = "sample_row ''approved'' ''kosher''"
  let ?tr1 = "[Call False (JStr ''kosher''),
         Request (Chat False ''Vegan, Gluten-Free, No restrictions'' (JStr ''kosher''))]"
  let ?tr2 = "[Call False (JStr ''kosher''),
         Request (Chat False ''Vegan, Gluten-Free, No restrictions'' (JStr ''kosher'')),
         Call True (JStr ''kosher''),
         Request (Chat True ''Vegan, Gluten-Free, No restrictions'' (JStr ''kosher''))]"
  let ?st = "\<lparr>trace = [], classifications = []\<rparr>"
  have h1: "approved ?r" by code_simp
  have h2: "strip_cell (row_get ?r ''diet'') = Inr ''kosher''" by code_simp
  have h3: "''kosher'' \<noteq> []" by simp
  have h4: "classify_guarded sample_env sample_categories (trace ?st) ''kosher'' = (?tr1, Inl ProviderError)"
    by code_simp
  have h5: "classify_dietary_restrictions sample_env ?tr1 (JStr ''kosher'') sample_categories True =
      (?tr2, Inl ProviderError)"
    by code_simp
  have k: "classifications (fst (process_rows sample_env sample_categories ''diet'' ''a.csv'' False (0 + 1)
         [sample_row ''approved'' ''vegan'']
         \<lparr>trace = ?tr2, classifications = append_cats (classifications ?st) ''a.csv'' [JStr ''Error'']\<rparr>)) =
       [(''a.csv'', [JStr ''Error'', JStr ''Vegan''])]"
    by code_simp
  note fallback_once_then_error [OF h1 h2 h3 h4 h5, of False 0 "''a.csv''"
      "[sample_row ''approved'' ''vegan'']"]
  with h1 h2 h4 k show ?thesis by simp
qed

text \<open>
  C9. A row whose text is a JSON array: when the classification of one sub-text raises,
  after the sub-texts before it were classified and accumulated, the fallback call is
  made once on the whole text of the row, and the row's classification is exactly what
  that call returns, or \<open>["Error"]\<close> when it raises; the accumulated list is not part
  of it.
\<close>

theorem array_failure_retries_whole_text:
  assumes "approved r"
    and "strip_cell (row_get r column_name) = Inr text"
    and "startswith text ''[''" and "endswith text '']''"
    and "json_loads e text = Some (JArr (before @ item # after))"
    and "classify_items e categories tr before [] = (tr0, Inr accumulated)"
    and "classify_dietary_restrictions e tr0 item categories False = (tr1, Inl x)"
    and "classify_dietary_restrictions e tr1 (JStr text) categories True = (tr2, res)"
  shows "row_classification e categories column_name tr r =
           (tr2, Inr (Some (case res of Inl y \<Rightarrow> JArr [JStr ''Error''] | Inr c \<Rightarrow> c)))
       \<and> filter is_call (drop (length tr1) tr2) = [Call True (JStr text)]"
proof -
  have ne: "text \<noteq> []"
    using assms(3) by (auto simp: startswith_def)
  have "classify_items e categories tr (before @ item # after) [] = (tr1, Inl x)"
    using assms(6,7) by (simp add: classify_items_append)
  then have g: "classify_guarded e categories tr text = (tr1, Inl x)"
    using assms(3,4,5) by (simp add: classify_guarded_def)
  have rc: "row_classification e categories column_name tr r =
           (tr2, Inr (Some (case res of Inl y \<Rightarrow> JArr [JStr ''Error''] | Inr c \<Rightarrow> c)))"
    using ne classify_text_fallback [OF g assms(8)]
    by (simp add: row_classification_approved [OF assms(1,2)])
  from classify_new_events [OF assms(8)] have
    "filter is_call (drop (length tr1) tr2) = [Call True (JStr text)]" by auto
  with rc show ?thesis by simp
qed

theorem array_failure_retries_whole_text_witness:
  "approved (sample_row ''approved'' vegan_shellfish)
   \<and> json_loads sample_env vegan_shellfish = Some (JArr ([JStr ''vegan''] @ JStr ''shellfish'' # []))
   \<and> classify_items sample_env sample_categories [] [JStr ''vegan''] [] =
       ([Call False (JStr ''vegan''),
         Request (Chat False ''Vegan, Gluten-Free, No restrictions'' (JStr ''vegan''))],
        Inr [JStr ''Vegan''])
   \<and> row_classification sample_env sample_categories ''diet'' []
         (sample_row ''approved'' vegan_shellfish) =
       ([Call False (JStr ''vegan''),
         Request (Chat False ''Vegan, Gluten-Free, No restrictions'' (JStr ''vegan'')),
         Call False (JStr ''shellfish''),
         Request (Chat False ''Vegan, Gluten-Free, No restrictions'' (JStr ''shellfish'')),
         Call True (JStr vegan_shellfish),
         Request (Chat True ''Vegan, Gluten-Free, No restrictions'' (JStr vegan_shellfish))],
        Inr (Some (JArr [JStr ''Vegan''])))"
proof -
  let ?r = "sample_row ''approved'' vegan_shellfish"
  let ?tr0 = "[Call False (JStr ''vegan''),
         Request (Chat False ''Vegan, Gluten-Free, No restrictions'' (JStr ''vegan''))]"
  let ?tr1 = "?tr0 @ [Call False (JStr ''shellfish''),
         Request (Chat False ''Vegan, Gluten-Free, No restrictions'' (JStr ''shellfish''))]"
  let ?tr2 = "?tr1 @ [Call True (JStr vegan_shellfish),
         Request (Chat True ''Vegan, Gluten-Free, No restrictions'' (JStr vegan_shellfish))]"
  have h1: "approved ?r" by code_simp
  have h2: "strip_cell (row_get ?r ''diet'') = Inr vegan_shellfish" by code_simp
  have h3: "startswith vegan_shellfish ''[''" by code_simp
  have h4: "endswith vegan_shellfish '']''" by code_simp
  have h5: "json_loads sample_env vegan_shellfish = Some (JArr ([JStr ''vegan''] @ JStr ''shellfish'' # []))"
    by code_simp
  have h6: "classify_items sample_env sample_categories [] [JStr ''vegan''] [] = (?tr0, Inr [JStr ''Vegan''])"
    by code_simp
  have h7: "classify_dietary_restrictions sample_env ?tr0 (JStr ''shellfish'') sample_categories False =
      (?tr1, Inl ProviderError)"
    by code_simp
  have h8: "classify_dietary_restrictions sample_env ?tr1 (JStr vegan_shellfish) sample_categories True =
      (?tr2, Inr (JArr [JStr ''Vegan'']))"
    by code_simp
  note array_failure_retries_whole_text [OF h1 h2 h3 h4 h5 h6 h7 h8]
  with h1 h5 h6 show ?thesis by simp
qed

lemma classify_returns_trace:
  assumes "classify_dietary_restrictions e tr text categories p = (tr1, Inr v)"
  shows "tr1 = tr @ [Call p text, Request (Chat p (the (py_join categories)) text)]"
  using assms
  by (auto simp: classify_dietary_restrictions_def Let_def split: if_splits option.splits sum.splits)

lemma sub_calls_length: "length (sub_calls e categories tr items) = length items"
  by (induction items arbitrary: tr) (auto split: prod.splits)

lemma classify_items_values:
  "sub_calls e categories tr items = map Inr vals \<Longrightarrow>
   map py_iter vals = map Some replies \<Longrightarrow>
   classify_items e categories tr items acc =
     (tr @ concat (map (\<lambda>item. [Call False item,
                                 Request (Chat False (the (py_join categories)) item)]) items),
      Inr (acc @ concat replies))"
proof (induction items arbitrary: tr acc vals replies)
  case Nil
  then show ?case by simp
next
  case (Cons item items)
  obtain tr0 r0 where c: "classify_dietary_restrictions e tr item categories False = (tr0, r0)"
    by (cases "classify_dietary_restrictions e tr item categories False")
  with Cons.prems(1) obtain v vs where
    l: "vals = v # vs" and r0: "r0 = Inr v"
    and s: "sub_calls e categories tr0 items = map Inr vs"
    by (cases vals) auto
  with Cons.prems(2) obtain xs rest where
    rp: "replies = xs # rest" and it: "py_iter v = Some xs"
    and m: "map py_iter vs = map Some rest"
    by (cases replies) auto
  from c r0 have t0: "tr0 = tr @ [Call False item,
      Request (Chat False (the (py_join categories)) item)]"
    using classify_returns_trace by simp
  from Cons.IH [OF s m, of "acc @ xs"] c r0 rp it t0 show ?case by simp
qed

text \<open>
  C4, as the code has it. An approved row whose trimmed text starts with \<open>[\<close>, ends
  with \<open>]\<close> and parses as a JSON array of N items: when none of the N classification
  calls, issued one after the other, raises and each returns a value that can be iterated
  (a list, in the reply format the prompt asks for), the row issues exactly those N calls
  to the primary provider, one per item in array order (each with its request), and the
  row's classification is the concatenation, in that order, of the elements of the N
  values returned: of the N lists.
\<close>

theorem array_row_concatenates:
  assumes "approved r"
    and "strip_cell (row_get r column_name) = Inr text"
    and "startswith text ''[''" and "endswith text '']''"
    and "json_loads e text = Some (JArr items)"
    and "sub_calls e categories tr items = map Inr vals"
    and "map py_iter vals = map Some replies"
  shows "length replies = length items
       \<and> row_classification e categories column_name tr r =
           (tr @ concat (map (\<lambda>item. [Call False item,
                                       Request (Chat False (the (py_join categories)) item)]) items),
            Inr (Some (JArr (concat replies))))
       \<and> filter is_call
            (concat (map (\<lambda>item. [Call False item,
                                   Request (Chat False (the (py_join categories)) item)]) items)) =
           map (Call False) items"
proof -
  have ne: "text \<noteq> []"
    using assms(3) by (auto simp: startswith_def)
  have "length vals = length items"
    using arg_cong [OF assms(6), of length] by (simp add: sub_calls_length)
  moreover have "length replies = length vals"
    using arg_cong [OF assms(7), of length] by simp
  ultimately have len: "length replies = length items" by simp
  have "classify_guarded e categories tr text =
      (tr @ concat (map (\<lambda>item. [Call False item,
                                 Request (Chat False (the (py_join categories)) item)]) items),
       Inr (JArr (concat replies)))"
    using assms(3,4,5) classify_items_values [OF assms(6,7), of "[]"]
    by (simp add: classify_guarded_def)
  then have rc: "row_classification e categories column_name tr r =
           (tr @ concat (map (\<lambda>item. [Call False item,
                                       Request (Chat False (the (py_join categories)) item)]) items),
            Inr (Some (JArr (concat replies))))"
    using ne by (simp add: row_classification_approved [OF assms(1,2)] classify_text_def)
  have "filter is_call
            (concat (map (\<lambda>item. [Call False item,
                                   Request (Chat False (the (py_join categories)) item)]) items)) =
           map (Call False) items"
    by (induction items) auto
  with len rc show ?thesis by simp
qed

theorem array_row_concatenates_witness:
  "approved (sample_row ''approved'' vegan_celiac)
   \<and> json_loads sample_env vegan_celiac = Some (JArr [JStr ''vegan'', JStr ''celiac''])
   \<and> sub_calls sample_env sample_categories [] [JStr ''vegan'', JStr ''celiac''] =
       [Inr (JArr [JStr ''Vegan'']), Inr (JArr [JStr ''Gluten-Free''])]
   \<and> row_classification sample_env sample_categories ''diet'' []
         (sample_row ''approved'' vegan_celiac) =
       ([Call False (JStr ''vegan''),
         Request (Chat False ''Vegan, Gluten-Free, No restrictions'' (JStr ''vegan'')),
         Call False (JStr ''celiac''),
         Request (Chat False ''Vegan, Gluten-Free, No restrictions'' (JStr ''celiac''))],
        Inr (Some (JArr [JStr ''Vegan'', JStr ''Gluten-Free''])))"
proof -
  let ?r = "sample_row ''approved'' vegan_celiac"
  have h1: "approved ?r" by code_simp
  have h2: "strip_cell (row_get ?r ''diet'') = Inr vegan_celiac" by code_simp
  have h3: "startswith vegan_celiac ''[''" by code_simp
  have h4: "endswith vegan_celiac '']''" by code_simp
  have h5: "json_loads sample_env vegan_celiac = Some (JArr [JStr ''vegan'', JStr ''celiac''])"
    by code_simp
  have h6: "sub_calls sample_env sample_categories [] [JStr ''vegan'', JStr ''celiac''] =
      map Inr [JArr [JStr ''Vegan''], JArr [JStr ''Gluten-Free'']]"
    by code_simp
  have h7: "map py_iter [JArr [JStr ''Vegan''], JArr [JStr ''Gluten-Free'']] =
      map Some [[JStr ''Vegan''], [JStr ''Gluten-Free'']]"
    by simp
  have j: "the (py_join sample_categories) = ''Vegan, Gluten-Free, No restrictions''"
    by code_simp
  note array_row_concatenates [OF h1 h2 h3 h4 h5 h6 h7]
  with h1 h5 h6 j show ?thesis by simp
qed

text \<open>
  C4 as stated fails: the one classification call of the array returns \<open>None\<close> (the
  reply holds \<open>null\<close> under the key) and does not raise, but \<open>extend\<close> raises
  \<open>TypeError\<close> on it inside the \<open>try\<close>, so the fallback call is made as well: two
  classification calls for one sub-text, and the classification is the fallback's.
\<close>

theorem null_reply_adds_fallback_call:
  "approved (sample_row ''approved'' tbd_array)
   \<and> strip_cell (row_get (sample_row ''approved'' tbd_array) ''diet'') = Inr tbd_array
   \<and> startswith tbd_array ''['' \<and> endswith tbd_array '']''
   \<and> json_loads sample_env tbd_array = Some (JArr [JStr ''tbd''])
   \<and> sub_calls sample_env sample_categories [] [JStr ''tbd''] = [Inr JNull]
   \<and> row_classification sample_env sample_categories ''diet'' []
         (sample_row ''approved'' tbd_array) =
       ([Call False (JStr ''tbd''),
         Request (Chat False ''Vegan, Gluten-Free, No restrictions'' (JStr ''tbd'')),
         Call True (JStr tbd_array),
         Request (Chat True ''Vegan, Gluten-Free, No restrictions'' (JStr tbd_array))],
        Inr (Some (JArr [JStr ''Vegan''])))
   \<and> length (filter is_call (fst (row_classification sample_env sample_categories ''diet'' []
         (sample_row ''approved'' tbd_array)))) = 2"
  by code_simp

subsection \<open>Category derivation\<close>

text \<open>
  C2, as the code has it. When the provider's reply parses to a JSON object without the
  key \<open>categories\<close>, \<open>get_unique_categories\<close> returns the empty list. When the reply is
  not valid JSON, the \<open>JSONDecodeError\<close> of \<open>json.loads\<close> leaves the function: nothing
  in it catches an exception.
\<close>

theorem derive_reply_without_key:
  assumes "unique_files column_name (csv_files data_folder) {} = Inr u"
    and "\<not> client_fails e False"
    and "create e tr (Derive u) = Inr (Some content)"
  shows "(json_loads e content = None \<longrightarrow>
            get_unique_categories e tr data_folder column_name =
              (tr @ [Request (Derive u)], Inl JSONDecodeError))
       \<and> (\<forall>kvs. json_loads e content = Some (JObj kvs) \<and> map_of kvs ''categories'' = None \<longrightarrow>
            get_unique_categories e tr data_folder column_name =
              (tr @ [Request (Derive u)], Inr (JArr [])))"
  using assms
  by (simp add: get_unique_categories_def Let_def loads_content_def py_get_def dict_get_def)

theorem derive_reply_without_key_witness:
  "unique_files ''diet'' (csv_files [(''a.csv'', [sample_row ''approved'' ''n/a''])]) {} = Inr {''n/a''}
   \<and> create sample_env [] (Derive {''n/a''}) = Inr (Some ''{}'')
   \<and> json_loads sample_env ''{}'' = Some (JObj [])
   \<and> get_unique_categories sample_env [] [(''a.csv'', [sample_row ''approved'' ''n/a''])] ''diet'' =
       ([Request (Derive {''n/a''})], Inr (JArr []))"
proof -
  have h1: "unique_files ''diet'' (csv_files [(''a.csv'', [sample_row ''approved'' ''n/a''])]) {} =
      Inr {''n/a''}"
    by code_simp
  have h2: "\<not> client_fails sample_env False" by code_simp
  have h3: "create sample_env [] (Derive {''n/a''}) = Inr (Some ''{}'')" by code_simp
  have h4: "json_loads sample_env ''{}'' = Some (JObj [])" by code_simp
  note derive_reply_without_key [OF h1 h2 h3]
  with h1 h3 h4 show ?thesis by simp
qed

text \<open>
  C2 as stated fails: for a reply that is not JSON the function raises instead of
  returning the empty list.
\<close>

theorem derive_bad_json_raises:
  "create sample_env [] (Derive {''???''}) = Inr (Some ''Service unavailable'')
   \<and> json_loads sample_env ''Service unavailable'' = None
   \<and> get_unique_categories sample_env [] [(''a.csv'', [sample_row ''approved'' ''???''])] ''diet'' =
       ([Request (Derive {''???''})], Inl JSONDecodeError)"
  by code_simp

lemma unique_row_result:
  assumes "unique_row column_name r acc = Inr u"
  shows "u = acc \<union> {v. v \<noteq> [] \<and> approved r \<and> (\<exists>s. row_get r column_name = Some s \<and> v = strip s)}"
proof (cases "row_get r ''approval_status''")
  case None
  with assms show ?thesis by (simp add: unique_row_def strip_cell_def)
next
  case (Some status)
  show ?thesis
  proof (cases "lower (strip status) = ''approved''")
    case False
    with Some assms show ?thesis
      by (auto simp: unique_row_def strip_cell_def approved_def)
  next
    case True
    with Some have a: "approved r" by (simp add: approved_def)
    from True Some assms obtain s where s: "row_get r column_name = Some s"
      by (cases "row_get r column_name") (auto simp: unique_row_def strip_cell_def)
    with True Some assms a show ?thesis
      by (auto simp: unique_row_def strip_cell_def split: if_splits)
  qed
qed

lemma unique_rows_result:
  "unique_rows column_name rs acc = Inr u \<Longrightarrow>
   u = acc \<union> {v. v \<noteq> [] \<and> (\<exists>r \<in> set rs. approved r \<and>
                    (\<exists>s. row_get r column_name = Some s \<and> v = strip s))}"
proof (induction rs arbitrary: acc)
  case Nil
  then show ?case by simp
next
  case (Cons r rs)
  from Cons.prems obtain u0 where
    u0: "unique_row column_name r acc = Inr u0" and rest: "unique_rows column_name rs u0 = Inr u"
    by (auto split: sum.splits)
  from unique_row_result [OF u0] Cons.IH [OF rest] show ?case by auto
qed

lemma unique_files_result:
  "unique_files column_name fs acc = Inr u \<Longrightarrow>
   u = acc \<union> {v. v \<noteq> [] \<and> (\<exists>f \<in> set fs. \<exists>r \<in> set (snd f). approved r \<and>
                    (\<exists>s. row_get r column_name = Some s \<and> v = strip s))}"
proof (induction fs arbitrary: acc)
  case Nil
  then show ?case by simp
next
  case (Cons f fs)
  from Cons.prems obtain u0 where
    u0: "unique_rows column_name (snd f) acc = Inr u0"
    and rest: "unique_files column_name fs u0 = Inr u"
    by (auto split: sum.splits)
  from unique_rows_result [OF u0] Cons.IH [OF rest] show ?case by auto
qed

lemma unique_row_absent:
  assumes "approved r" and "r column_name = None"
  shows "unique_row column_name r acc = Inr acc"
  using approved_status [OF assms(1)] assms(2)
  by (auto simp: unique_row_def row_get_def strip_cell_def strip_def)

text \<open>
  C10. The unique values sent for category derivation are exactly the non-empty trimmed
  values of the target column over the approved rows of the CSV files; the empty string
  is never among them, and an approved row without the column leaves the set as it was.
\<close>

theorem unique_values_trimmed_nonempty:
  assumes "unique_files column_name (csv_files data_folder) {} = Inr u"
  shows "[] \<notin> u
       \<and> u = {v. v \<noteq> [] \<and> (\<exists>f \<in> set (csv_files data_folder). \<exists>r \<in> set (snd f). approved r \<and>
                    (\<exists>s. row_get r column_name = Some s \<and> v = strip s))}
       \<and> (\<forall>r acc. approved r \<and> r column_name = None \<longrightarrow>
             unique_row column_name r acc = Inr acc)
       \<and> (\<not> client_fails e False \<longrightarrow>
             fst (get_unique_categories e tr data_folder column_name) = tr @ [Request (Derive u)])"
proof -
  have u: "u = {v. v \<noteq> [] \<and> (\<exists>f \<in> set (csv_files data_folder). \<exists>r \<in> set (snd f). approved r \<and>
                    (\<exists>s. row_get r column_name = Some s \<and> v = strip s))}"
    using unique_files_result [OF assms] by simp
  then have n: "[] \<notin> u" by simp
  have g: "\<not> client_fails e False \<longrightarrow>
             fst (get_unique_categories e tr data_folder column_name) = tr @ [Request (Derive u)]"
    using assms by (simp add: get_unique_categories_def Let_def split: sum.splits)
  from n u g unique_row_absent show ?thesis by blast
qed

theorem unique_values_trimmed_nonempty_witness:
  "unique_files ''diet''
     (csv_files [(''a.csv'', [sample_row ''approved'' '' vegan '', sample_row ''approved'' ''  '',
                              map_of [(''approval_status'', Some ''approved'')],
                              sample_row ''pending'' ''celiac''])]) {} = Inr {''vegan''}
   \<and> [] \<notin> {''vegan''}
   \<and> approved (map_of [(''approval_status'', Some ''approved'')])
   \<and> unique_row ''diet'' (map_of [(''approval_status'', Some ''approved'')]) {''vegan''} = Inr {''vegan''}
   \<and> fst (get_unique_categories sample_env []
       [(''a.csv'', [sample_row ''approved'' '' vegan '', sample_row ''approved'' ''  '',
                              map_of [(''approval_status'', Some ''approved'')],
                              sample_row ''pending'' ''celiac''])] ''diet'') =
       [Request (Derive {''vegan''})]"
proof -
  let ?fo = "[(''a.csv'', [sample_row ''approved'' '' vegan '', sample_row ''approved'' ''  '',
                              map_of [(''approval_status'', Some ''approved'')],
                              sample_row ''pending'' ''celiac''])]"
  let ?r = "map_of [(''approval_status'', Some ''approved'')] :: row"
  have h: "unique_files ''diet'' (csv_files ?fo) {} = Inr {''vegan''}" by code_simp
  have a: "approved ?r" by code_simp
  have c: "?r ''diet'' = None" by simp
  have f: "\<not> client_fails sample_env False" by code_simp
  note unique_values_trimmed_nonempty [OF h, of sample_env "[]"]
  with h a c f show ?thesis by simp
qed

subsection \<open>The output file name\<close>

lemma str_nat_nonempty: "str_nat n \<noteq> []"
  by (subst str_nat.simps) simp

lemma digit_char_inj:
  assumes "a < 10" and "b < 10" and "char_of (48 + a) = (char_of (48 + b) :: char)"
  shows "a = (b::nat)"
proof -
  from assms(3) have "(48 + a) mod 256 = (48 + b) mod 256"
    by (simp only: char_of_quasi_inj)
  with assms(1,2) show ?thesis by simp
qed

lemma str_nat_inj: "str_nat m = str_nat n \<Longrightarrow> m = n"
proof (induction m arbitrary: n rule: str_nat.induct)
  case (1 m)
  show ?case
  proof (cases "m < 10")
    case m: True
    show ?thesis
    proof (cases "n < 10")
      case True
      from "1.prems" m True have "char_of (48 + m) = (char_of (48 + n) :: char)"
        by (subst (asm) str_nat.simps, subst (asm) (2) str_nat.simps) simp
      with m True show ?thesis by (rule digit_char_inj)
    next
      case False
      from "1.prems" m False have "[char_of (48 + m)] = str_nat (n div 10) @ [char_of (48 + n mod 10)]"
        by (subst (asm) str_nat.simps, subst (asm) (2) str_nat.simps) simp
      then have "str_nat (n div 10) = []" by simp
      with str_nat_nonempty show ?thesis by blast
    qed
  next
    case m: False
    show ?thesis
    proof (cases "n < 10")
      case True
      from "1.prems" m True have "str_nat (m div 10) @ [char_of (48 + m mod 10)] = [char_of (48 + n)]"
        by (subst (asm) str_nat.simps, subst (asm) (2) str_nat.simps) simp
      then have "str_nat (m div 10) = []" by simp
      with str_nat_nonempty show ?thesis by blast
    next
      case False
      from "1.prems" m False have
        eq: "str_nat (m div 10) @ [char_of (48 + m mod 10)] =
             str_nat (n div 10) @ [char_of (48 + n mod 10)]"
        by (subst (asm) str_nat.simps, subst (asm) (2) str_nat.simps) simp
      then have "str_nat (m div 10) = str_nat (n div 10)" by simp
      from "1.IH" [OF m this] have d: "m div 10 = n div 10" .
      from eq have "char_of (48 + m mod 10) = (char_of (48 + n mod 10) :: char)" by simp
      then have "m mod 10 = n mod 10"
        by (intro digit_char_inj) simp_all
      with d show ?thesis by (metis div_mult_mod_eq)
    qed
  qed
qed

lemma numbered_inj: "numbered b m ext = numbered b n ext \<Longrightarrow> m = n"
proof -
  assume "numbered b m ext = numbered b n ext"
  then have eq: "str_nat m @ '')'' @ ext = str_nat n @ '')'' @ ext"
    by (simp add: numbered_def)
  then have "length (str_nat m) = length (str_nat n)"
    using arg_cong [OF eq, of length] by simp
  with eq have "str_nat m = str_nat n" by simp
  then show ?thesis by (rule str_nat_inj)
qed

lemma unique_from_first_free:
  assumes "start \<le> n" and "\<not> ex (numbered b n ext)"
    and "\<forall>k. start \<le> k \<and> k < n \<longrightarrow> ex (numbered b k ext)"
  shows "unique_from ex b ext start = Some (numbered b n ext)"
  using assms
proof (induction "n - start" arbitrary: start)
  case 0
  then have "start = n" by simp
  with "0.prems"(2) show ?case by (subst unique_from.simps) simp
next
  case (Suc d)
  then have lt: "start < n" by simp
  with Suc.prems(3) have ex: "ex (numbered b start ext)" by simp
  have "unique_from ex b ext (start + 1) = Some (numbered b n ext)"
  proof (rule Suc.hyps(1))
    show "d = n - (start + 1)" using Suc.hyps(2) by simp
    show "start + 1 \<le> n" using lt by simp
    show "\<not> ex (numbered b n ext)" by (rule Suc.prems(2))
    show "\<forall>k. start + 1 \<le> k \<and> k < n \<longrightarrow> ex (numbered b k ext)"
      using Suc.prems(3) by simp
  qed
  with ex show ?case by (subst unique_from.simps) simp
qed

lemma free_name_exists:
  assumes "finite {p. ex p}"
  shows "\<exists>n. 1 \<le> n \<and> \<not> ex (numbered b n ext)"
proof (rule ccontr)
  assume "\<not> (\<exists>n. 1 \<le> n \<and> \<not> ex (numbered b n ext))"
  then have "(\<lambda>n. numbered b n ext) ` {1..} \<subseteq> {p. ex p}" by auto
  with assms have "finite ((\<lambda>n. numbered b n ext) ` {1::nat..})" by (rule rev_finite_subset)
  moreover have "inj_on (\<lambda>n. numbered b n ext) {1::nat..}"
    by (rule inj_onI) (rule numbered_inj)
  ultimately have "finite {1::nat..}" by (rule finite_imageD)
  then show False by (simp add: infinite_Ici)
qed

lemma process_csv_files_path:
  assumes "process_csv_files e data_folder column_name output_file_base test_run =
             Some (tr, Inr (out, rows))"
  shows "get_unique_filename e output_file_base ''.csv'' = Some out"
  using assms
  by (auto simp: process_csv_files_def split: prod.splits sum.splits option.splits)

text \<open>
  C7. On a file system with finitely many paths, \<open>get_unique_filename\<close> returns, and
  what it returns is \<open>base_name(n)extension\<close> for the smallest \<open>n\<close> from 1 on whose path
  does not exist: the path returned names no existing file, and it is the path a
  completed run writes (with extension \<open>.csv\<close>). With \<open>classification_results.csv\<close> and
  \<open>classification_results(1).csv\<close> present, that is \<open>classification_results(2).csv\<close>.
\<close>

theorem get_unique_filename_first_free:
  assumes "finite {p. path_exists e p}"
  shows "\<exists>n. 1 \<le> n
           \<and> get_unique_filename e base_name extension = Some (numbered base_name n extension)
           \<and> \<not> path_exists e (numbered base_name n extension)
           \<and> (\<forall>k. 1 \<le> k \<and> k < n \<longrightarrow> path_exists e (numbered base_name k extension))
           \<and> (\<forall>data_folder column_name test_run tr out rows.
                 extension = ''.csv'' \<and>
                 process_csv_files e data_folder column_name base_name test_run =
                   Some (tr, Inr (out, rows)) \<longrightarrow>
                 out = numbered base_name n extension)"
proof -
  let ?P = "\<lambda>n. 1 \<le> n \<and> \<not> path_exists e (numbered base_name n extension)"
  from free_name_exists [OF assms] have ex: "\<exists>n. ?P n" .
  define n where "n = (LEAST n. ?P n)"
  have n: "?P n" unfolding n_def using ex by (rule LeastI_ex)
  have least: "\<forall>m<n. \<not> ?P m"
    unfolding n_def using not_less_Least by blast
  from least have below: "\<forall>k. 1 \<le> k \<and> k < n \<longrightarrow> path_exists e (numbered base_name k extension)"
    by auto
  with n have g: "get_unique_filename e base_name extension = Some (numbered base_name n extension)"
    unfolding get_unique_filename_def by (intro unique_from_first_free) auto
  have "\<forall>data_folder column_name test_run tr out rows.
                 extension = ''.csv'' \<and>
                 process_csv_files e data_folder column_name base_name test_run =
                   Some (tr, Inr (out, rows)) \<longrightarrow>
                 out = numbered base_name n extension"
    using g process_csv_files_path by fastforce
  with n below g show ?thesis by blast
qed

theorem get_unique_filename_first_free_witness:
  "finite {p. path_exists sample_env p}
   \<and> path_exists sample_env ''classification_results.csv''
   \<and> path_exists sample_env ''classification_results(1).csv''
   \<and> get_unique_filename sample_env ''classification_results'' ''.csv'' =
       Some ''classification_results(2).csv''
   \<and> \<not> path_exists sample_env ''classification_results(2).csv''
   \<and> process_csv_files sample_env
        [(''a.csv'', [sample_row ''approved'' ''vegan''])] ''diet'' ''classification_results'' False =
       Some ([Request (Derive {''vegan''}),
              Call False (JStr ''vegan''),
              Request (Chat False ''Vegan, Gluten-Free, No restrictions'' (JStr ''vegan''))],
             Inr (''classification_results(2).csv'', [(''a.csv'', JStr ''Vegan'', 1)]))"
proof -
  have f: "finite {p. path_exists sample_env p}"
    by (simp add: sample_env_def Collect_disj_eq)
  have p0: "path_exists sample_env ''classification_results.csv''" by code_simp
  have p1: "path_exists sample_env ''classification_results(1).csv''" by code_simp
  have g: "get_unique_filename sample_env ''classification_results'' ''.csv'' =
       Some ''classification_results(2).csv''"
    by code_simp
  have r: "process_csv_files sample_env
        [(''a.csv'', [sample_row ''approved'' ''vegan''])] ''diet'' ''classification_results'' False =
       Some ([Request (Derive {''vegan''}),
              Call False (JStr ''vegan''),
              Request (Chat False ''Vegan, Gluten-Free, No restrictions'' (JStr ''vegan''))],
             Inr (''classification_results(2).csv'', [(''a.csv'', JStr ''Vegan'', 1)]))"
    by code_simp
  from get_unique_filename_first_free [OF f, of "''classification_results''" "''.csv''"]
  obtain n where
    "get_unique_filename sample_env ''classification_results'' ''.csv'' =
       Some (numbered ''classification_results'' n ''.csv'')"
    "\<not> path_exists sample_env (numbered ''classification_results'' n ''.csv'')"
    by blast
  with g have "\<not> path_exists sample_env ''classification_results(2).csv''" by simp
  with f p0 p1 g r show ?thesis by simp
qed

subsection \<open>The test run\<close>

lemma process_rows_capped:
  "process_rows e categories column_name filename True i rs st =
   process_rows e categories column_name filename False i (take (10 - i) rs) st"
proof (induction rs arbitrary: i st)
  case Nil
  then show ?case by simp
next
  case (Cons r rs)
  show ?case
  proof (cases "10 \<le> i")
    case True
    then show ?thesis by simp
  next
    case False
    then have s: "10 - i = Suc (10 - (i + 1))" by simp
    have t: "take (10 - i) (r # rs) = r # take (10 - (i + 1)) rs"
      by (subst s) simp
    show ?thesis
      using False Cons.IH [of "i + 1"]
      by (simp only: t) (simp split: prod.splits option.splits)
  qed
qed

lemma process_files_capped:
  "process_files e categories column_name True fs st =
   process_files e categories column_name False (map (\<lambda>f. (fst f, take 10 (snd f))) fs) st"
proof (induction fs arbitrary: st)
  case Nil
  then show ?case by simp
next
  case (Cons f fs)
  have "process_rows e categories column_name (fst f) True 0 (snd f) st =
        process_rows e categories column_name (fst f) False 0 (take 10 (snd f)) st"
    using process_rows_capped [of e categories column_name "fst f" 0 "snd f" st] by simp
  with Cons.IH show ?case by (simp split: prod.splits option.splits)
qed

lemma classify_text_prefix:
  "\<exists>evs. fst (classify_text e categories tr t) = tr @ evs"
proof -
  obtain tr1 res where g: "classify_guarded e categories tr t = (tr1, res)"
    by (cases "classify_guarded e categories tr t")
  from classify_guarded_events [OF g] obtain evs1 where e1: "tr1 = tr @ evs1" by auto
  show ?thesis
  proof (cases res)
    case (Inr c)
    with g e1 show ?thesis by (simp add: classify_text_def)
  next
    case (Inl x)
    obtain tr2 res2 where
      f: "classify_dietary_restrictions e tr1 (JStr t) categories True = (tr2, res2)"
      by (cases "classify_dietary_restrictions e tr1 (JStr t) categories True")
    from classify_new_events [OF f] obtain evs2 where "tr2 = tr1 @ evs2" by auto
    with e1 have "tr2 = tr @ (evs1 @ evs2)" by simp
    moreover have "fst (classify_text e categories tr t) = tr2"
      using g Inl f by (simp add: classify_text_def split: sum.splits)
    ultimately show ?thesis by blast
  qed
qed

lemma row_classification_prefix:
  "\<exists>evs. fst (row_classification e categories column_name tr r) = tr @ evs"
proof -
  have "fst (row_classification e categories column_name tr r) = tr \<or>
        (\<exists>t. fst (row_classification e categories column_name tr r) =
              fst (classify_text e categories tr t))"
    by (auto simp: row_classification_def split: sum.splits prod.splits) (metis fst_conv)
  then show ?thesis
    using classify_text_prefix [of e categories tr] by (metis append_Nil2)
qed

lemma process_row_prefix:
  "\<exists>evs. trace (fst (process_row e categories column_name filename r st)) = trace st @ evs"
proof -
  have "trace (fst (process_row e categories column_name filename r st)) =
        fst (row_classification e categories column_name (trace st) r)"
    by (simp add: process_row_def split: prod.splits sum.splits option.splits)
  then show ?thesis
    using row_classification_prefix [of e categories column_name "trace st" r] by simp
qed

lemma process_rows_prefix:
  "\<exists>evs. trace (fst (process_rows e categories column_name filename test_run i rs st)) =
         trace st @ evs"
proof (induction rs arbitrary: i st)
  case Nil
  then show ?case by simp
next
  case (Cons r rs)
  show ?case
  proof (cases "test_run \<and> 10 \<le> i")
    case True
    then show ?thesis by simp
  next
    case False
    obtain st1 x where p: "process_row e categories column_name filename r st = (st1, x)"
      by (cases "process_row e categories column_name filename r st")
    from process_row_prefix [of e categories column_name filename r st] p
    obtain evs1 where e1: "trace st1 = trace st @ evs1" by auto
    show ?thesis
    proof (cases x)
      case (Some y)
      with False p e1 show ?thesis by (cases test_run) simp_all
    next
      case None
      from Cons.IH [of "i + 1" st1] obtain evs2 where
        "trace (fst (process_rows e categories column_name filename test_run (i + 1) rs st1)) =
         trace st1 @ evs2" by auto
      with e1 have "trace (fst (process_rows e categories column_name filename test_run (i + 1) rs st1)) =
         trace st @ (evs1 @ evs2)" by simp
      with False p None show ?thesis by (cases test_run) simp_all
    qed
  qed
qed

lemma process_files_prefix:
  "\<exists>evs. trace (fst (process_files e categories column_name test_run fs st)) = trace st @ evs"
proof (induction fs arbitrary: st)
  case Nil
  then show ?case by simp
next
  case (Cons f fs)
  obtain st1 x where
    p: "process_rows e categories column_name (fst f) test_run 0 (snd f) st = (st1, x)"
    by (cases "process_rows e categories column_name (fst f) test_run 0 (snd f) st")
  from process_rows_prefix [of e categories column_name "fst f" test_run 0 "snd f" st] p
  obtain evs1 where e1: "trace st1 = trace st @ evs1" by auto
  show ?case
  proof (cases x)
    case (Some y)
    with p e1 show ?thesis by simp
  next
    case None
    from Cons.IH [of st1] obtain evs2 where
      "trace (fst (process_files e categories column_name test_run fs st1)) = trace st1 @ evs2"
      by auto
    with e1 have "trace (fst (process_files e categories column_name test_run fs st1)) =
        trace st @ (evs1 @ evs2)" by simp
    with p None show ?thesis by simp
  qed
qed

lemma run_trace_starts_with_derivation:
  assumes "process_csv_files e data_folder column_name output_file_base test_run = Some (tr, res)"
  shows "\<exists>evs. tr = fst (get_unique_categories e [] data_folder column_name) @ evs"
proof -
  obtain tr0 r0 where g: "get_unique_categories e [] data_folder column_name = (tr0, r0)"
    by (cases "get_unique_categories e [] data_folder column_name")
  show ?thesis
  proof (cases r0)
    case (Inl x)
    with g assms show ?thesis by (simp add: process_csv_files_def)
  next
    case (Inr categories)
    let ?pf = "process_files e categories column_name test_run (csv_files data_folder)
                 \<lparr>trace = tr0, classifications = []\<rparr>"
    from process_files_prefix [of e categories column_name test_run "csv_files data_folder"
        "\<lparr>trace = tr0, classifications = []\<rparr>"]
    obtain evs where e: "trace (fst ?pf) = tr0 @ evs" by auto
    have "tr = trace (fst ?pf)"
      using g Inr assms
      by (auto simp: process_csv_files_def split: prod.splits sum.splits option.splits)
    with e g show ?thesis by simp
  qed
qed

text \<open>
  C8, as the code has it. With the test-run flag set, the classification pass handles
  exactly the rows 0 to 9 of each file: the row loop and the file loop with the flag give
  the trace, the count table and the outcome that the loops without the flag give on the
  files cut to their first 10 rows, so these rows are classified and counted as in a full
  run and a later row issues no classification call and adds no entry. The cap is not
  part of \<open>get_unique_categories\<close>, which takes no flag: the non-empty trimmed value of
  every approved row, whatever its index, is among the unique values, and a test run
  starts with the derivation request that carries them.
\<close>

theorem test_run_caps_classification:
  "process_rows e categories column_name filename True 0 rs st =
     process_rows e categories column_name filename False 0 (take 10 rs) st
   \<and> process_files e categories column_name True fs st =
     process_files e categories column_name False (map (\<lambda>f. (fst f, take 10 (snd f))) fs) st
   \<and> (\<forall>u f r s. unique_files column_name (csv_files data_folder) {} = Inr u \<and>
         f \<in> set (csv_files data_folder) \<and> r \<in> set (snd f) \<and> approved r \<and>
         row_get r column_name = Some s \<and> strip s \<noteq> [] \<longrightarrow> strip s \<in> u)
   \<and> (\<forall>u tr res. unique_files column_name (csv_files data_folder) {} = Inr u \<and>
         \<not> client_fails e False \<and>
         process_csv_files e data_folder column_name output_file_base True = Some (tr, res) \<longrightarrow>
         take 1 tr = [Request (Derive u)])"
proof -
  have a: "process_rows e categories column_name filename True 0 rs st =
     process_rows e categories column_name filename False 0 (take 10 rs) st"
    using process_rows_capped [of e categories column_name filename 0 rs st] by simp
  have b: "process_files e categories column_name True fs st =
     process_files e categories column_name False (map (\<lambda>f. (fst f, take 10 (snd f))) fs) st"
    by (rule process_files_capped)
  have c: "\<forall>u f r s. unique_files column_name (csv_files data_folder) {} = Inr u \<and>
         f \<in> set (csv_files data_folder) \<and> r \<in> set (snd f) \<and> approved r \<and>
         row_get r column_name = Some s \<and> strip s \<noteq> [] \<longrightarrow> strip s \<in> u"
  proof (intro allI impI)
    fix u f r s
    assume h: "unique_files column_name (csv_files data_folder) {} = Inr u \<and>
         f \<in> set (csv_files data_folder) \<and> r \<in> set (snd f) \<and> approved r \<and>
         row_get r column_name = Some s \<and> strip s \<noteq> []"
    then have "unique_files column_name (csv_files data_folder) {} = Inr u" by simp
    from unique_files_result [OF this] h show "strip s \<in> u" by auto
  qed
  have d: "\<forall>u tr res. unique_files column_name (csv_files data_folder) {} = Inr u \<and>
         \<not> client_fails e False \<and>
         process_csv_files e data_folder column_name output_file_base True = Some (tr, res) \<longrightarrow>
         take 1 tr = [Request (Derive u)]"
  proof (intro allI impI)
    fix u tr res
    assume h: "unique_files column_name (csv_files data_folder) {} = Inr u \<and>
         \<not> client_fails e False \<and>
         process_csv_files e data_folder column_name output_file_base True = Some (tr, res)"
    then have "fst (get_unique_categories e [] data_folder column_name) = [Request (Derive u)]"
      by (simp add: get_unique_categories_def Let_def split: sum.splits)
    moreover from h run_trace_starts_with_derivation
    obtain evs where "tr = fst (get_unique_categories e [] data_folder column_name) @ evs"
      by blast
    ultimately show "take 1 tr = [Request (Derive u)]" by simp
  qed
  from a b c d show ?thesis by blast
qed

theorem test_run_caps_classification_witness:
  "length eleven_approved = 11
   \<and> process_rows sample_env sample_categories ''diet'' ''a.csv'' True 0 eleven_approved
       \<lparr>trace = [], classifications = []\<rparr> =
     process_rows sample_env sample_categories ''diet'' ''a.csv'' False 0 (take 10 eleven_approved)
       \<lparr>trace = [], classifications = []\<rparr>
   \<and> process_rows sample_env sample_categories ''diet'' ''a.csv'' True 0 eleven_approved
       \<lparr>trace = [], classifications = []\<rparr> =
     (\<lparr>trace = concat (replicate 10
                 [Call False (JStr ''vegan''),
                  Request (Chat False ''Vegan, Gluten-Free, No restrictions'' (JStr ''vegan''))]),
       classifications = [(''a.csv'', replicate 10 (JStr ''Vegan''))]\<rparr>, None)
   \<and> process_rows sample_env sample_categories ''diet'' ''a.csv'' False 0 eleven_approved
       \<lparr>trace = [], classifications = []\<rparr> =
     (\<lparr>trace = concat (replicate 10
                 [Call False (JStr ''vegan''),
                  Request (Chat False ''Vegan, Gluten-Free, No restrictions'' (JStr ''vegan''))])
               @ [Call False (JStr ''celiac''),
                  Request (Chat False ''Vegan, Gluten-Free, No restrictions'' (JStr ''celiac''))],
       classifications = [(''a.csv'', replicate 10 (JStr ''Vegan'') @ [JStr ''Gluten-Free''])]\<rparr>,
      None)"
proof -
  have l: "length eleven_approved = 11" by code_simp
  have v: "process_rows sample_env sample_categories ''diet'' ''a.csv'' False 0 (take 10 eleven_approved)
       \<lparr>trace = [], classifications = []\<rparr> =
     (\<lparr>trace = concat (replicate 10
                 [Call False (JStr ''vegan''),
                  Request (Chat False ''Vegan, Gluten-Free, No restrictions'' (JStr ''vegan''))]),
       classifications = [(''a.csv'', replicate 10 (JStr ''Vegan''))]\<rparr>, None)"
    by code_simp
  have w: "process_rows sample_env sample_categories ''diet'' ''a.csv'' False 0 eleven_approved
       \<lparr>trace = [], classifications = []\<rparr> =
     (\<lparr>trace = concat (replicate 10
                 [Call False (JStr ''vegan''),
                  Request (Chat False ''Vegan, Gluten-Free, No restrictions'' (JStr ''vegan''))])
               @ [Call False (JStr ''celiac''),
                  Request (Chat False ''Vegan, Gluten-Free, No restrictions'' (JStr ''celiac''))],
       classifications = [(''a.csv'', replicate 10 (JStr ''Vegan'') @ [JStr ''Gluten-Free''])]\<rparr>,
      None)"
    by code_simp
  from test_run_caps_classification [of sample_env sample_categories "''diet''" "''a.csv''"
      eleven_approved "\<lparr>trace = [], classifications = []\<rparr>"]
  have t: "process_rows sample_env sample_categories ''diet'' ''a.csv'' True 0 eleven_approved
       \<lparr>trace = [], classifications = []\<rparr> =
     process_rows sample_env sample_categories ''diet'' ''a.csv'' False 0 (take 10 eleven_approved)
       \<lparr>trace = [], classifications = []\<rparr>"
    by blast
  from t v have tv: "process_rows sample_env sample_categories ''diet'' ''a.csv'' True 0 eleven_approved
       \<lparr>trace = [], classifications = []\<rparr> =
     (\<lparr>trace = concat (replicate 10
                 [Call False (JStr ''vegan''),
                  Request (Chat False ''Vegan, Gluten-Free, No restrictions'' (JStr ''vegan''))]),
       classifications = [(''a.csv'', replicate 10 (JStr ''Vegan''))]\<rparr>, None)"
    by (rule trans)
  show ?thesis by (intro conjI l t tv w)
qed

text \<open>
  C8 as stated fails: in a test run the approved row at index 10 still contributes its
  value to the category-derivation request, and here the categories derived and the
  counts written differ from those of the run on the first 10 rows alone.
\<close>

theorem later_row_reaches_derivation:
  "process_csv_files sample_env [(''a.csv'', eleven_rows)] ''diet'' ''classification_results'' True =
     Some ([Request (Derive {''nuts'', ''no peanuts please''}),
            Call False (JStr ''no peanuts please''),
            Request (Chat False ''Nut allergy, No restrictions'' (JStr ''no peanuts please''))],
           Inr (''classification_results(2).csv'', [(''a.csv'', JStr ''Nut allergy'', 1)]))
   \<and> process_csv_files sample_env [(''a.csv'', take 10 eleven_rows)] ''diet''
        ''classification_results'' True =
     Some ([Request (Derive {''no peanuts please''}),
            Call False (JStr ''no peanuts please''),
            Request (Chat False ''Vegan, Gluten-Free, No restrictions''
                       (JStr ''no peanuts please''))],
           Inr (''classification_results(2).csv'', [(''a.csv'', JStr ''No restrictions'', 1)]))"
  by code_simp

subsection \<open>The count table\<close>

lemma cats_of_dd_append:
  "cats_of (dd_append t f x) g = (if g = f then cats_of t f @ [x] else cats_of t g)"
  by (induction t) (auto simp: cats_of_def)

lemma cats_of_append_cats:
  "cats_of (append_cats t f cs) g = (if g = f then cats_of t f @ cs else cats_of t g)"
  unfolding append_cats_def
  by (induction cs arbitrary: t) (auto simp: cats_of_dd_append)

lemma keys_dd_append: "set (map fst (dd_append t f x)) = insert f (set (map fst t))"
  by (induction t f x rule: dd_append.induct) (auto split: if_splits)

lemma distinct_dd_append: "distinct (map fst t) \<Longrightarrow> distinct (map fst (dd_append t f x))"
proof (induction t)
  case Nil
  then show ?case by simp
next
  case (Cons p t)
  obtain g cats where p: "p = (g, cats)" by (cases p)
  show ?case
  proof (cases "g = f")
    case True
    with Cons.prems p show ?thesis by simp
  next
    case False
    have "g \<notin> set (map fst (dd_append t f x))"
      using False Cons.prems p by (simp only: keys_dd_append) auto
    with Cons p False show ?thesis by simp
  qed
qed

lemma distinct_append_cats: "distinct (map fst t) \<Longrightarrow> distinct (map fst (append_cats t f cs))"
  unfolding append_cats_def
  by (induction cs arbitrary: t) (auto simp: distinct_dd_append)

lemma distinct_stream:
  "distinct (map fst t) \<Longrightarrow>
   distinct (map fst (foldl (\<lambda>tb p. append_cats tb (fst p) (snd p)) t stream))"
  by (induction stream arbitrary: t) (auto simp: distinct_append_cats)

lemma cats_of_stream:
  "cats_of (foldl (\<lambda>tb p. append_cats tb (fst p) (snd p)) t stream) g =
   cats_of t g @ concat (map snd (filter (\<lambda>p. fst p = g) stream))"
  by (induction stream arbitrary: t) (auto simp: cats_of_append_cats)

subsection \<open>Counter\<close>

lemma py_eq_str_left: "py_eq (JStr c) x \<longleftrightarrow> x = JStr c"
  by (cases x) (auto simp: py_eq_def)

lemma py_eq_str_right: "py_eq k (JStr c) \<longleftrightarrow> k = JStr c"
  by (cases k) (auto simp: py_eq_def)

lemma py_eq_refl: "py_eq x x"
  by (simp add: py_eq_def)

lemma map_of_counter_add_str:
  "map_of (counter_add kns x) (JStr c) =
     (if x = JStr c
      then Some (case map_of kns (JStr c) of None \<Rightarrow> 1 | Some n \<Rightarrow> n + 1)
      else map_of kns (JStr c))"
proof (induction kns)
  case Nil
  then show ?case by auto
next
  case (Cons p kns)
  obtain k n where p: "p = (k, n)" by (cases p)
  show ?case
  proof (cases "py_eq k x")
    case True
    show ?thesis
    proof (cases "k = JStr c")
      case k: True
      with True have "x = JStr c" by (simp add: py_eq_str_left)
      with p k True show ?thesis by simp
    next
      case k: False
      with True have "x \<noteq> JStr c" by (auto simp: py_eq_str_right)
      with p k True show ?thesis by simp
    qed
  next
    case False
    show ?thesis
    proof (cases "k = JStr c")
      case k: True
      with False have "x \<noteq> JStr c" by (auto simp: py_eq_refl)
      with p k False show ?thesis by simp
    next
      case k: False
      with p False Cons.IH show ?thesis by simp
    qed
  qed
qed

lemma map_of_counter_str:
  "map_of (foldl counter_add kns cats) (JStr c) =
     (if count_list cats (JStr c) = 0 then map_of kns (JStr c)
      else Some (count_list cats (JStr c)
                 + (case map_of kns (JStr c) of None \<Rightarrow> 0 | Some n \<Rightarrow> n)))"
  by (induction cats arbitrary: kns) (auto simp: map_of_counter_add_str split: option.splits)

lemma keys_counter_add: "set (map fst (counter_add kns x)) \<subseteq> insert x (set (map fst kns))"
  by (induction kns x rule: counter_add.induct) (auto split: if_splits)

lemma distinct_counter_add:
  "distinct (map fst kns) \<Longrightarrow> distinct (map fst (counter_add kns x))"
proof (induction kns)
  case Nil
  then show ?case by simp
next
  case (Cons p kns)
  obtain k n where p: "p = (k, n)" by (cases p)
  show ?case
  proof (cases "py_eq k x")
    case True
    with Cons.prems p show ?thesis by simp
  next
    case False
    then have "k \<noteq> x" by (auto simp: py_eq_refl)
    with Cons.prems p keys_counter_add [of kns x]
    have "k \<notin> set (map fst (counter_add kns x))" by auto
    with Cons p False show ?thesis by simp
  qed
qed

lemma distinct_counter:
  "distinct (map fst kns) \<Longrightarrow> distinct (map fst (foldl counter_add kns cats))"
  by (induction cats arbitrary: kns) (auto simp: distinct_counter_add)

lemma counter_member_str:
  "(JStr c, n) \<in> set (foldl counter_add [] cats) \<longleftrightarrow> 0 < n \<and> n = count_list cats (JStr c)"
proof -
  have d: "distinct (map fst (foldl counter_add [] cats))"
    by (rule distinct_counter) simp
  have "(JStr c, n) \<in> set (foldl counter_add [] cats) \<longleftrightarrow>
        map_of (foldl counter_add [] cats) (JStr c) = Some n"
    using d by simp
  then show ?thesis
    by (auto simp: map_of_counter_str)
qed

lemma classification_counts_eq:
  "classification_counts t = Inr cc \<Longrightarrow>
   cc = map (\<lambda>p. (fst p, foldl counter_add [] (snd p))) t"
  by (induction t arbitrary: cc)
     (auto simp: Counter_def split: sum.splits if_splits)

lemma written_rows_member:
  assumes "classification_counts t = Inr cc" and "distinct (map fst t)"
  shows "(f, JStr c, n) \<in> set (written_rows cc) \<longleftrightarrow>
         0 < n \<and> n = count_list (cats_of t f) (JStr c)"
proof -
  have cc: "cc = map (\<lambda>p. (fst p, foldl counter_add [] (snd p))) t"
    using assms(1) by (rule classification_counts_eq)
  have "(f, JStr c, n) \<in> set (written_rows cc) \<longleftrightarrow>
        (\<exists>cats. (f, cats) \<in> set t \<and> (JStr c, n) \<in> set (foldl counter_add [] cats))"
    unfolding cc written_rows_def by force
  also have "\<dots> \<longleftrightarrow> (\<exists>cats. map_of t f = Some cats \<and> 0 < n \<and> n = count_list cats (JStr c))"
    using assms(2) by (simp add: counter_member_str)
  also have "\<dots> \<longleftrightarrow> 0 < n \<and> n = count_list (cats_of t f) (JStr c)"
    by (cases "map_of t f") (auto simp: cats_of_def)
  finally show ?thesis .
qed

subsection \<open>Aggregation\<close>

lemma process_rows_step:
  assumes "\<not> (test_run \<and> 10 \<le> i)"
    and "row_classification e categories column_name (trace st) r = (tr1, res)"
  shows "process_rows e categories column_name f test_run i (r # rs) st =
     (case res of
        Inl x \<Rightarrow> (st\<lparr>trace := tr1\<rparr>, Some x)
      | Inr None \<Rightarrow>
          process_rows e categories column_name f test_run (i + 1) rs (st\<lparr>trace := tr1\<rparr>)
      | Inr (Some cl) \<Rightarrow>
          (case py_iter cl of
             None \<Rightarrow> (st\<lparr>trace := tr1\<rparr>, Some TypeError)
           | Some cs \<Rightarrow>
               process_rows e categories column_name f test_run (i + 1) rs
                 \<lparr>trace = tr1, classifications = append_cats (classifications st) f cs\<rparr>))"
  using assms
  by (cases test_run) (simp_all add: process_row_def split: sum.splits option.splits)

lemma rows_lists_step:
  assumes "\<not> (test_run \<and> 10 \<le> i)"
    and "row_classification e categories column_name tr r = (tr1, res)"
  shows "rows_lists e categories column_name test_run i (r # rs) tr =
     (case res of
        Inl x \<Rightarrow> []
      | Inr None \<Rightarrow> rows_lists e categories column_name test_run (i + 1) rs tr1
      | Inr (Some cl) \<Rightarrow>
          (case py_iter cl of
             None \<Rightarrow> []
           | Some cs \<Rightarrow> cs # rows_lists e categories column_name test_run (i + 1) rs tr1))"
  using assms
  by (cases test_run) (simp_all split: sum.splits option.splits)

lemma process_rows_trace:
  "trace st = trace st2 \<Longrightarrow>
   trace (fst (process_rows e categories column_name f test_run i rs st)) =
   trace (fst (process_rows e categories column_name f test_run i rs st2))
   \<and> snd (process_rows e categories column_name f test_run i rs st) =
     snd (process_rows e categories column_name f test_run i rs st2)"
proof (induction rs arbitrary: i st st2)
  case Nil
  then show ?case by simp
next
  case (Cons r rs)
  show ?case
  proof (cases "test_run \<and> 10 \<le> i")
    case True
    with Cons.prems show ?thesis by simp
  next
    case False
    obtain tr1 res where rc: "row_classification e categories column_name (trace st) r = (tr1, res)"
      by (cases "row_classification e categories column_name (trace st) r")
    then have rc2: "row_classification e categories column_name (trace st2) r = (tr1, res)"
      using Cons.prems by simp
    note s1 = process_rows_step [OF False rc, of f rs]
    note s2 = process_rows_step [OF False rc2, of f rs]
    show ?thesis
    proof (cases res)
      case (Inl x)
      with s1 s2 show ?thesis by simp
    next
      case (Inr v)
      show ?thesis
      proof (cases v)
        case None
        have "trace (st\<lparr>trace := tr1\<rparr>) = trace (st2\<lparr>trace := tr1\<rparr>)" by simp
        from Cons.IH [OF this, of "i + 1"] s1 s2 Inr None show ?thesis by simp
      next
        case (Some cl)
        show ?thesis
        proof (cases "py_iter cl")
          case None
          with s1 s2 Inr Some show ?thesis by simp
        next
          case (Some cs)
          have "trace \<lparr>trace = tr1, classifications = append_cats (classifications st) f cs\<rparr> =
                trace \<lparr>trace = tr1, classifications = append_cats (classifications st2) f cs\<rparr>"
            by simp
          from Cons.IH [OF this, of "i + 1"] s1 s2 Inr \<open>v = Some cl\<close> Some
          show ?thesis by simp
        qed
      qed
    qed
  qed
qed

lemma process_rows_table:
  "classifications (fst (process_rows e categories column_name f test_run i rs st)) =
   foldl (\<lambda>tb l. append_cats tb f l) (classifications st)
     (rows_lists e categories column_name test_run i rs (trace st))"
proof (induction rs arbitrary: i st)
  case Nil
  then show ?case by simp
next
  case (Cons r rs)
  show ?case
  proof (cases "test_run \<and> 10 \<le> i")
    case True
    then show ?thesis by simp
  next
    case False
    obtain tr1 res where rc: "row_classification e categories column_name (trace st) r = (tr1, res)"
      by (cases "row_classification e categories column_name (trace st) r")
    note s1 = process_rows_step [OF False rc, of f rs]
    note s2 = rows_lists_step [OF False rc, of rs]
    show ?thesis
    proof (cases res)
      case (Inl x)
      with s1 s2 show ?thesis by simp
    next
      case (Inr v)
      show ?thesis
      proof (cases v)
        case None
        from Cons.IH [of "i + 1" "st\<lparr>trace := tr1\<rparr>"] s1 s2 Inr None show ?thesis by simp
      next
        case (Some cl)
        show ?thesis
        proof (cases "py_iter cl")
          case None
          with s1 s2 Inr Some show ?thesis by simp
        next
          case (Some cs)
          from Cons.IH [of "i + 1"
              "\<lparr>trace = tr1, classifications = append_cats (classifications st) f cs\<rparr>"]
            s1 s2 Inr \<open>v = Some cl\<close> Some
          show ?thesis by simp
        qed
      qed
    qed
  qed
qed

lemma foldl_pairs:
  "foldl (\<lambda>tb p. append_cats tb (fst p) (snd p)) tb0 (map (Pair g) ls) =
   foldl (\<lambda>tb l. append_cats tb g l) tb0 ls"
  by (induction ls arbitrary: tb0) auto

lemma process_files_lists:
  "process_files e categories column_name test_run fs st = (st1, None) \<Longrightarrow>
   classifications st1 =
     foldl (\<lambda>tb p. append_cats tb (fst p) (snd p)) (classifications st)
       (files_lists e categories column_name test_run fs (trace st))"
proof (induction fs arbitrary: st)
  case Nil
  then show ?case by simp
next
  case (Cons f fs)
  let ?run = "process_rows e categories column_name (fst f) test_run 0 (snd f)"
  obtain st0 x where r: "?run st = (st0, x)" by (cases "?run st")
  with Cons.prems have x: "x = None" and rest:
    "process_files e categories column_name test_run fs st0 = (st1, None)"
    by (auto split: option.splits)
  obtain st2 y where r2: "?run \<lparr>trace = trace st, classifications = []\<rparr> = (st2, y)"
    by (cases "?run \<lparr>trace = trace st, classifications = []\<rparr>")
  have "trace st = trace \<lparr>trace = trace st, classifications = []\<rparr>" by simp
  from process_rows_trace [OF this, of e categories column_name "fst f" test_run 0 "snd f"]
    r r2 x
  have y: "y = None" and tr: "trace st2 = trace st0" by simp_all
  from process_rows_table [of e categories column_name "fst f" test_run 0 "snd f" st] r
  have tb: "classifications st0 =
      foldl (\<lambda>tb l. append_cats tb (fst f) l) (classifications st)
        (rows_lists e categories column_name test_run 0 (snd f) (trace st))"
    by simp
  have fl: "files_lists e categories column_name test_run (f # fs) (trace st) =
      map (Pair (fst f)) (rows_lists e categories column_name test_run 0 (snd f) (trace st))
      @ files_lists e categories column_name test_run fs (trace st0)"
    using r2 y tr by simp
  show ?case
    unfolding fl using Cons.IH [OF rest] tb by (simp add: foldl_pairs)
qed

lemma process_files_distinct:
  "process_files e categories column_name test_run fs st = (st1, None) \<Longrightarrow>
   distinct (map fst (classifications st)) \<Longrightarrow> distinct (map fst (classifications st1))"
  by (simp add: process_files_lists distinct_stream)

text \<open>
  C6. In the rows a completed run writes, the count of a category name for a source file
  is the number of times the name occurs in the per-row classification lists of that
  file, taken together: every occurrence counts, also a repeated one within a row, and a
  (file, name) pair is written exactly when that number is positive. Rows classified
  \<open>["Vegan"]\<close>, \<open>["Vegan", "Gluten-Free"]\<close> and \<open>["No restrictions"]\<close> give the counts
  (Vegan, 2), (Gluten-Free, 1), (No restrictions, 1).
\<close>

theorem counts_are_occurrences:
  assumes "get_unique_categories e [] data_folder column_name = (tr0, Inr categories)"
    and "process_csv_files e data_folder column_name output_file_base test_run =
           Some (tr, Inr (out, rows))"
  shows "(f, JStr c, n) \<in> set rows \<longleftrightarrow>
         0 < n \<and>
         n = count_list
               (concat (map snd (filter (\<lambda>p. fst p = f)
                  (files_lists e categories column_name test_run (csv_files data_folder) tr0))))
               (JStr c)"
proof -
  from assms obtain st cc where
    pf: "process_files e categories column_name test_run (csv_files data_folder)
           \<lparr>trace = tr0, classifications = []\<rparr> = (st, None)"
    and cc: "classification_counts (classifications st) = Inr cc"
    and rows: "rows = written_rows cc"
    by (auto simp: process_csv_files_def split: prod.splits sum.splits option.splits)
  have d: "distinct (map fst (classifications st))"
    using process_files_distinct [OF pf] by simp
  have "cats_of (classifications st) f =
        concat (map snd (filter (\<lambda>p. fst p = f)
          (files_lists e categories column_name test_run (csv_files data_folder) tr0)))"
    using process_files_lists [OF pf] by (simp add: cats_of_stream) (simp add: cats_of_def)
  with written_rows_member [OF cc d, of f c n] rows show ?thesis by simp
qed

theorem counts_are_occurrences_witness:
  "get_unique_categories sample_env [] sample_folder ''diet'' =
     ([Request (Derive {''vegan, celiac'', ''vegan''})], Inr sample_categories)
   \<and> files_lists sample_env sample_categories ''diet'' False (csv_files sample_folder)
        [Request (Derive {''vegan, celiac'', ''vegan''})] =
       [(''a.csv'', [JStr ''Vegan'']),
        (''a.csv'', [JStr ''Vegan'', JStr ''Gluten-Free'']),
        (''a.csv'', [JStr ''No restrictions''])]
   \<and> process_csv_files sample_env sample_folder ''diet'' ''classification_results'' False =
       Some ([Request (Derive {''vegan, celiac'', ''vegan''}),
              Call False (JStr ''vegan''),
              Request (Chat False ''Vegan, Gluten-Free, No restrictions'' (JStr ''vegan'')),
              Call False (JStr ''vegan, celiac''),
              Request (Chat False ''Vegan, Gluten-Free, No restrictions'' (JStr ''vegan, celiac''))],
             Inr (''classification_results(2).csv'',
                  [(''a.csv'', JStr ''Vegan'', 2),
                   (''a.csv'', JStr ''Gluten-Free'', 1),
                   (''a.csv'', JStr ''No restrictions'', 1)]))
   \<and> count_list
         (concat (map snd (filter (\<lambda>p. fst p = ''a.csv'')
            (files_lists sample_env sample_categories ''diet'' False
               (csv_files sample_folder)
               [Request (Derive {''vegan, celiac'', ''vegan''})]))))
         (JStr ''Vegan'') = 2"
proof -
  have h1: "get_unique_categories sample_env [] sample_folder ''diet'' =
     ([Request (Derive {''vegan, celiac'', ''vegan''})], Inr sample_categories)"
    by code_simp
  have h2: "process_csv_files sample_env sample_folder ''diet'' ''classification_results'' False =
       Some ([Request (Derive {''vegan, celiac'', ''vegan''}),
              Call False (JStr ''vegan''),
              Request (Chat False ''Vegan, Gluten-Free, No restrictions'' (JStr ''vegan'')),
              Call False (JStr ''vegan, celiac''),
              Request (Chat False ''Vegan, Gluten-Free, No restrictions'' (JStr ''vegan, celiac''))],
             Inr (''classification_results(2).csv'',
                  [(''a.csv'', JStr ''Vegan'', 2),
                   (''a.csv'', JStr ''Gluten-Free'', 1),
                   (''a.csv'', JStr ''No restrictions'', 1)]))"
    by code_simp
  have h3: "files_lists sample_env sample_categories ''diet'' False (csv_files sample_folder)
        [Request (Derive {''vegan, celiac'', ''vegan''})] =
       [(''a.csv'', [JStr ''Vegan'']),
        (''a.csv'', [JStr ''Vegan'', JStr ''Gluten-Free'']),
        (''a.csv'', [JStr ''No restrictions''])]"
    by code_simp
  from counts_are_occurrences [OF h1 h2, of "''a.csv''" "''Vegan''" 2]
  have t: "count_list
         (concat (map snd (filter (\<lambda>p. fst p = ''a.csv'')
            (files_lists sample_env sample_categories ''diet'' False
               (csv_files sample_folder)
               [Request (Derive {''vegan, celiac'', ''vegan''})]))))
         (JStr ''Vegan'') = 2"
    by simp
  show ?thesis by (intro conjI h1 h2 h3 t)
qed

subsection \<open>What a row contributes\<close>

text \<open>
  C1, as the code has it. For an approved row whose cells are strings, the entries
  appended to the file's list in the count table are exactly the elements of the row's
  classification: the one entry \<open>No restrictions\<close> when the trimmed text is empty, the
  one entry \<open>Error\<close> when the guarded block and the fallback call both raise, and
  otherwise the elements of the list the classification returned. That list can be
  empty, and then the row adds no entry.
\<close>

theorem approved_row_entries:
  assumes "approved r" and "strip_cell (row_get r column_name) = Inr text"
  shows "(text = [] \<longrightarrow>
            process_row e categories column_name filename r st =
              (st\<lparr>classifications :=
                    append_cats (classifications st) filename [JStr ''No restrictions'']\<rparr>, None))
       \<and> (\<forall>tr1 x tr2 y.
            text \<noteq> [] \<and> classify_guarded e categories (trace st) text = (tr1, Inl x) \<and>
            classify_dietary_restrictions e tr1 (JStr text) categories True = (tr2, Inl y) \<longrightarrow>
            process_row e categories column_name filename r st =
              (\<lparr>trace = tr2,
                classifications = append_cats (classifications st) filename [JStr ''Error'']\<rparr>,
               None))
       \<and> (\<forall>tr1 c cs.
            text \<noteq> [] \<and> classify_text e categories (trace st) text = (tr1, c) \<and>
            py_iter c = Some cs \<longrightarrow>
            process_row e categories column_name filename r st =
              (\<lparr>trace = tr1, classifications = append_cats (classifications st) filename cs\<rparr>,
               None))
       \<and> (\<forall>t cs. cats_of (append_cats t filename cs) filename = cats_of t filename @ cs)"
proof -
  note rc = row_classification_approved [OF assms, of e categories "trace st"]
  have a: "text = [] \<longrightarrow>
            process_row e categories column_name filename r st =
              (st\<lparr>classifications :=
                    append_cats (classifications st) filename [JStr ''No restrictions'']\<rparr>, None)"
    using rc by (simp add: process_row_def)
  have c: "\<forall>tr1 c cs.
            text \<noteq> [] \<and> classify_text e categories (trace st) text = (tr1, c) \<and>
            py_iter c = Some cs \<longrightarrow>
            process_row e categories column_name filename r st =
              (\<lparr>trace = tr1, classifications = append_cats (classifications st) filename cs\<rparr>,
               None)"
    using rc by (simp add: process_row_def)
  have b: "\<forall>tr1 x tr2 y.
            text \<noteq> [] \<and> classify_guarded e categories (trace st) text = (tr1, Inl x) \<and>
            classify_dietary_restrictions e tr1 (JStr text) categories True = (tr2, Inl y) \<longrightarrow>
            process_row e categories column_name filename r st =
              (\<lparr>trace = tr2,
                classifications = append_cats (classifications st) filename [JStr ''Error'']\<rparr>,
               None)"
  proof (intro allI impI)
    fix tr1 x tr2 y
    assume h: "text \<noteq> [] \<and> classify_guarded e categories (trace st) text = (tr1, Inl x) \<and>
            classify_dietary_restrictions e tr1 (JStr text) categories True = (tr2, Inl y)"
    then have "classify_text e categories (trace st) text = (tr2, JArr [JStr ''Error''])"
      using classify_text_fallback [of e categories "trace st" "text" tr1 x tr2 "Inl y"] by simp
    with h c show "process_row e categories column_name filename r st =
              (\<lparr>trace = tr2,
                classifications = append_cats (classifications st) filename [JStr ''Error'']\<rparr>,
               None)"
      by simp
  qed
  have d: "\<forall>t cs. cats_of (append_cats t filename cs) filename = cats_of t filename @ cs"
    by (simp add: cats_of_append_cats)
  from a b c d show ?thesis by blast
qed

theorem approved_row_entries_witness:
  "approved (sample_row ''approved'' ''vegan'')
   \<and> strip_cell (row_get (sample_row ''approved'' ''vegan'') ''diet'') = Inr ''vegan''
   \<and> classify_text sample_env sample_categories [] ''vegan'' =
       ([Call False (JStr ''vegan''),
         Request (Chat False ''Vegan, Gluten-Free, No restrictions'' (JStr ''vegan''))],
        JArr [JStr ''Vegan''])
   \<and> process_row sample_env sample_categories ''diet'' ''a.csv'' (sample_row ''approved'' ''vegan'')
         \<lparr>trace = [], classifications = []\<rparr> =
       (\<lparr>trace = [Call False (JStr ''vegan''),
                  Request (Chat False ''Vegan, Gluten-Free, No restrictions'' (JStr ''vegan''))],
         classifications = [(''a.csv'', [JStr ''Vegan''])]\<rparr>, None)"
proof -
  let ?r = "sample_row ''approved'' ''vegan''"
  let ?st = "\<lparr>trace = [], classifications = []\<rparr>"
  let ?tr1 = "[Call False (JStr ''vegan''),
         Request (Chat False ''Vegan, Gluten-Free, No restrictions'' (JStr ''vegan''))]"
  have h1: "approved ?r" by code_simp
  have h2: "strip_cell (row_get ?r ''diet'') = Inr ''vegan''" by code_simp
  have h3: "classify_text sample_env sample_categories (trace ?st) ''vegan'' = (?tr1, JArr [JStr ''Vegan''])"
    by code_simp
  have h4: "py_iter (JArr [JStr ''Vegan'']) = Some [JStr ''Vegan'']" by simp
  have h5: "append_cats (classifications ?st) ''a.csv'' [JStr ''Vegan''] = [(''a.csv'', [JStr ''Vegan''])]"
    by (simp add: append_cats_def)
  from approved_row_entries [OF h1 h2, of sample_env sample_categories "''a.csv''" ?st]
  have "\<forall>tr1 c cs.
            ''vegan'' \<noteq> [] \<and> classify_text sample_env sample_categories (trace ?st) ''vegan'' = (tr1, c) \<and>
            py_iter c = Some cs \<longrightarrow>
            process_row sample_env sample_categories ''diet'' ''a.csv'' ?r ?st =
              (\<lparr>trace = tr1, classifications = append_cats (classifications ?st) ''a.csv'' cs\<rparr>,
               None)"
    by blast
  with h3 h4 have "process_row sample_env sample_categories ''diet'' ''a.csv'' ?r ?st =
              (\<lparr>trace = ?tr1, classifications = append_cats (classifications ?st) ''a.csv'' [JStr ''Vegan'']\<rparr>,
               None)"
    by blast
  with h1 h2 h3 h5 show ?thesis by simp
qed

text \<open>
  C1 as stated fails: the provider answers an object without the key
  \<open>dietary_restrictions\<close>, the classification is the default \<open>[]\<close>, and the approved row
  adds nothing to the count table.
\<close>

theorem approved_row_without_entry:
  "approved (sample_row ''approved'' ''nothing special'')
   \<and> create sample_env [Call False (JStr ''nothing special'')]
        (Chat False ''Vegan, Gluten-Free, No restrictions'' (JStr ''nothing special'')) =
       Inr (Some ''{}'')
   \<and> json_loads sample_env ''{}'' = Some (JObj [])
   \<and> process_row sample_env sample_categories ''diet'' ''a.csv''
         (sample_row ''approved'' ''nothing special'') \<lparr>trace = [], classifications = []\<rparr> =
       (\<lparr>trace = [Call False (JStr ''nothing special''),
                  Request (Chat False ''Vegan, Gluten-Free, No restrictions''
                             (JStr ''nothing special''))],
         classifications = []\<rparr>, None)"
  by code_simp

end
